theory Spec2Isabelle
  imports Main
begin

section \<open>Python strings and library functions used by \<open>show_differences.py\<close>\<close>

text \<open>
  A Python \<open>str\<close> is modelled as a \<open>string\<close> (a list of 8-bit characters, read as the code
  points 0 to 255).  The exceptions the two functions under study can meet are values of
  \<open>py_error\<close>; a function that may raise returns \<open>py_error + 'a\<close>.
\<close>

datatype py_error = ValueError | KeyError | IndexError

text \<open>\<open>s.startswith(p)\<close>.\<close>

definition startswith :: "string \<Rightarrow> string \<Rightarrow> bool" where
  "startswith s p = (take (length p) s = p)"

text \<open>
  \<open>html.escape(s)\<close> with the default \<open>quote=True\<close>: the five replacements of the standard
  library, which never overlap, so they act character by character.
\<close>

definition escape_char :: "char \<Rightarrow> string" where
  "escape_char c =
     (if c = CHR ''&'' then ''&amp;''
      else if c = CHR ''<'' then ''&lt;''
      else if c = CHR ''>'' then ''&gt;''
      else if c = CHR 0x22 then ''&quot;''
      else if c = CHR 0x27 then ''&#x27;''
      else [c])"

definition html_escape :: "string \<Rightarrow> string" where
  "html_escape s = concat (map escape_char s)"

text \<open>
  \<open>s.splitlines()\<close>: the line boundaries of Python among the code points below 256 are
  \<open>\n\<close>, \<open>\r\<close>, \<open>\r\n\<close>, \<open>\v\<close>, \<open>\f\<close>, \<open>\x1c\<close>, \<open>\x1d\<close>, \<open>\x1e\<close> and \<open>\x85\<close>.
  The boundaries are not kept, and a boundary at the very end opens no further line.
\<close>

definition is_linebreak :: "char \<Rightarrow> bool" where
  "is_linebreak c =
     (c = CHR 0x0A \<or> c = CHR 0x0D \<or> c = CHR 0x0B \<or> c = CHR 0x0C \<or>
      c = CHR 0x1C \<or> c = CHR 0x1D \<or> c = CHR 0x1E \<or> c = CHR 0x85)"

fun splitlines_from :: "string \<Rightarrow> string \<Rightarrow> string list" where
  "splitlines_from cur [] = (if cur = [] then [] else [cur])"
| "splitlines_from cur [c] =
     (if is_linebreak c then [cur] else [cur @ [c]])"
| "splitlines_from cur (c # d # cs) =
     (if c = CHR 0x0D \<and> d = CHR 0x0A then cur # splitlines_from [] cs
      else if is_linebreak c then cur # splitlines_from [] (d # cs)
      else splitlines_from (cur @ [c]) (d # cs))"

definition splitlines :: "string \<Rightarrow> string list" where
  "splitlines s = splitlines_from [] s"

text \<open>\<open>"\n".join(xs)\<close>.\<close>

fun join_nl :: "string list \<Rightarrow> string" where
  "join_nl [] = []"
| "join_nl [x] = x"
| "join_nl (x # y # ys) = x @ CHR 0x0A # join_nl (y # ys)"

text \<open>
  \<open>xs[i]\<close> on a list: a negative index counts from the end, and an index outside
  \<open>-len(xs) .. len(xs) - 1\<close> raises \<open>IndexError\<close>.
\<close>

definition py_index :: "'a list \<Rightarrow> int \<Rightarrow> py_error + 'a" where
  "py_index xs i =
     (if 0 \<le> i \<and> i < int (length xs) then Inr (xs ! nat i)
      else if i < 0 \<and> - int (length xs) \<le> i then Inr (xs ! nat (int (length xs) + i))
      else Inl IndexError)"

text \<open>
  \<open>\d\<close> of the \<open>re\<close> module on a \<open>str\<close> pattern matches the decimal digits; below code
  point 256 these are \<open>0\<close> to \<open>9\<close>.  \<open>digits_to_int\<close> is the value of a run of digits as an
  unbounded integer.

  \<open>int(s)\<close> raises \<open>ValueError\<close> when \<open>s\<close> has more digits than
  \<open>sys.int_info.default_max_str_digits = 4300\<close> (CPython 3.11 and later, with the default
  setting); leading zeros count.  \<open>int_of_digits\<close> is \<open>int(ds)\<close> on a run of digits.
\<close>

definition is_digit :: "char \<Rightarrow> bool" where
  "is_digit c = (48 \<le> (of_char c :: nat) \<and> (of_char c :: nat) \<le> 57)"

definition digit_val :: "char \<Rightarrow> int" where
  "digit_val c = int (of_char c) - 48"

definition digits_to_int :: "string \<Rightarrow> int" where
  "digits_to_int ds = foldl (\<lambda>a c. 10 * a + digit_val c) 0 ds"

definition int_max_str_digits :: nat where
  "int_max_str_digits = 4300"

definition int_of_digits :: "string \<Rightarrow> py_error + int" where
  "int_of_digits ds =
     (if length ds > int_max_str_digits then Inl ValueError else Inr (digits_to_int ds))"

section \<open>The hunk header pattern\<close>

text \<open>
  \<open>re.search(r"@@ -(\d+)(,(\d+))? \+(\d+)(,(\d+))? @@", header_line)\<close>.

  The match object is the record of the capture groups 1, 3, 4 and 6.  At a fixed start
  position the pattern has one way to match at most: a run of digits is always followed by
  a character that is not a digit (\<open>,\<close> or a space), so only the longest run can succeed,
  and the optional group starts with \<open>,\<close> where its alternative starts with a space.
  \<open>re.search\<close> returns the match at the leftmost start position that has one.
\<close>

record header_match =
  group1 :: string
  group3 :: "string option"
  group4 :: string
  group6 :: "string option"

definition match_literal :: "string \<Rightarrow> string \<Rightarrow> string option" where
  "match_literal lit s = (if startswith s lit then Some (drop (length lit) s) else None)"

definition match_digits :: "string \<Rightarrow> (string \<times> string) option" where
  "match_digits s =
     (if takeWhile is_digit s = [] then None
      else Some (takeWhile is_digit s, dropWhile is_digit s))"

definition match_opt_count :: "string \<Rightarrow> string option \<times> string" where
  "match_opt_count s =
     (case match_literal '','' s of
        None \<Rightarrow> (None, s)
      | Some r \<Rightarrow>
          (case match_digits r of
             None \<Rightarrow> (None, s)
           | Some (ds, r') \<Rightarrow> (Some ds, r')))"

definition match_header_at :: "string \<Rightarrow> header_match option" where
  "match_header_at s =
     (case match_literal ''@@ -'' s of
        None \<Rightarrow> None
      | Some r1 \<Rightarrow>
     (case match_digits r1 of
        None \<Rightarrow> None
      | Some (g1, r2) \<Rightarrow>
     (case match_opt_count r2 of (g3, r3) \<Rightarrow>
     (case match_literal '' +'' r3 of
        None \<Rightarrow> None
      | Some r4 \<Rightarrow>
     (case match_digits r4 of
        None \<Rightarrow> None
      | Some (g4, r5) \<Rightarrow>
     (case match_opt_count r5 of (g6, r6) \<Rightarrow>
     (case match_literal '' @@'' r6 of
        None \<Rightarrow> None
      | Some _ \<Rightarrow>
          Some \<lparr>group1 = g1, group3 = g3, group4 = g4, group6 = g6\<rparr>)))))))"

fun re_search_header :: "string \<Rightarrow> header_match option" where
  "re_search_header [] = match_header_at []"
| "re_search_header (c # cs) =
     (case match_header_at (c # cs) of
        Some m \<Rightarrow> Some m
      | None \<Rightarrow> re_search_header cs)"

text \<open>
  \<open>old_start\<close> is \<open>int(match.group(1))\<close>, the one conversion the code performs (lines 288
  and 723).  The other three coordinates of a header are given as the specification names
  them, the counts defaulting to 1; the code never converts them.
\<close>

definition old_start :: "header_match \<Rightarrow> py_error + int" where
  "old_start m = int_of_digits (group1 m)"

definition old_count :: "header_match \<Rightarrow> int" where
  "old_count m = (case group3 m of None \<Rightarrow> 1 | Some ds \<Rightarrow> digits_to_int ds)"

definition new_start :: "header_match \<Rightarrow> int" where
  "new_start m = digits_to_int (group4 m)"

definition new_count :: "header_match \<Rightarrow> int" where
  "new_count m = (case group6 m of None \<Rightarrow> 1 | Some ds \<Rightarrow> digits_to_int ds)"

definition old_start_of_header :: "string \<Rightarrow> (py_error + int) option" where
  "old_start_of_header header_line = map_option old_start (re_search_header header_line)"

section \<open>Splitting a patch into hunk sections\<close>

text \<open>
  A body line is one that starts with \<open>+\<close>, \<open>-\<close>, a space or a backslash
  (\<open>line.startswith(("+", "-", " ", "\\"))\<close>).
\<close>

definition is_body_line :: "string \<Rightarrow> bool" where
  "is_body_line line =
     (startswith line ''+'' \<or> startswith line ''-'' \<or> startswith line '' '' \<or>
      startswith line [CHR 0x5C])"

type_synonym hunk_section = "string \<times> string list"

text \<open>
  The scan of \<open>apply_patch_to_content\<close> (lines 255 to 269).  The state is
  \<open>(hunk_sections, current_hunk_header, current_hunk_body)\<close>; both \<open>current\<close> variables
  start as \<open>None\<close>.
\<close>

type_synonym scan_state = "hunk_section list \<times> string option \<times> string list option"

definition close_hunk :: "scan_state \<Rightarrow> hunk_section list" where
  "close_hunk st =
     (case st of
        (hunk_sections, Some h, Some b) \<Rightarrow> hunk_sections @ [(h, b)]
      | (hunk_sections, _, _) \<Rightarrow> hunk_sections)"

definition scan_line :: "scan_state \<Rightarrow> string \<Rightarrow> scan_state" where
  "scan_line st line =
     (case st of (hunk_sections, current_hunk_header, current_hunk_body) \<Rightarrow>
        if startswith line ''@@'' then (close_hunk st, Some line, Some [])
        else (case current_hunk_body of
                Some b \<Rightarrow>
                  if is_body_line line then (hunk_sections, current_hunk_header, Some (b @ [line]))
                  else st
              | None \<Rightarrow> st))"

definition hunk_sections_of :: "string list \<Rightarrow> hunk_section list" where
  "hunk_sections_of raw_patch_lines = close_hunk (foldl scan_line ([], None, None) raw_patch_lines)"

text \<open>
  The scan of \<open>generate_interleaved_lines_for_all_prs\<close> (lines 705 to 717): here the body
  starts as the empty list and the tests are on the truth value of \<open>current_hunk_header\<close>
  (a string is true when it is not empty).
\<close>

type_synonym merge_scan_state = "hunk_section list \<times> string option \<times> string list"

definition str_truthy :: "string option \<Rightarrow> bool" where
  "str_truthy h = (case h of None \<Rightarrow> False | Some s \<Rightarrow> s \<noteq> [])"

definition merge_close_hunk :: "merge_scan_state \<Rightarrow> hunk_section list" where
  "merge_close_hunk st =
     (case st of (hunk_sections, current_hunk_header, current_hunk_body) \<Rightarrow>
        if str_truthy current_hunk_header
        then hunk_sections @ [(the current_hunk_header, current_hunk_body)]
        else hunk_sections)"

definition merge_scan_line :: "merge_scan_state \<Rightarrow> string \<Rightarrow> merge_scan_state" where
  "merge_scan_line st line =
     (case st of (hunk_sections, current_hunk_header, current_hunk_body) \<Rightarrow>
        if startswith line ''@@'' then (merge_close_hunk st, Some line, [])
        else if str_truthy current_hunk_header then
          (if is_body_line line then (hunk_sections, current_hunk_header, current_hunk_body @ [line])
           else st)
        else st)"

definition merge_hunk_sections_of :: "string list \<Rightarrow> hunk_section list" where
  "merge_hunk_sections_of raw_patch_lines =
     merge_close_hunk (foldl merge_scan_line ([], None, []) raw_patch_lines)"

section \<open>\<open>apply_patch_to_content\<close>: applying one patch\<close>

text \<open>
  \<open>pr_details_for_annotation\<close> is a dictionary or \<open>None\<close>; it is modelled as an optional
  association list from keys to strings.  \<open>if pr_details_for_annotation:\<close> holds for a
  dictionary that is not empty, and \<open>d.get(k, default)\<close> is \<open>dict_get\<close>.
\<close>

type_synonym py_dict = "(string \<times> string) list"

definition dict_truthy :: "py_dict option \<Rightarrow> bool" where
  "dict_truthy d = (case d of None \<Rightarrow> False | Some kvs \<Rightarrow> kvs \<noteq> [])"

definition dict_get :: "py_dict \<Rightarrow> string \<Rightarrow> string \<Rightarrow> string" where
  "dict_get d k dflt = (case map_of d k of None \<Rightarrow> dflt | Some v \<Rightarrow> v)"

text \<open>The two forms of an added line (lines 304 to 312), and the form of a base line.\<close>

definition annotated_added_html :: "py_dict \<Rightarrow> string \<Rightarrow> string" where
  \<open>annotated_added_html d escaped_line_content =
     (let pr_num = dict_get d ''number'' ''N/A'';
          pr_title = html_escape (dict_get d ''title'' ''Unknown PR'')
      in ''<span class="added-line pr-annotated" title="PR #'' @ pr_num @ '': '' @ pr_title @ ''">''
           @ escaped_line_content @ ''</span>'')\<close>

definition plain_added_html :: "string \<Rightarrow> string" where
  \<open>plain_added_html escaped_line_content =
     ''<span class="added-line">'' @ escaped_line_content @ ''</span>''\<close>

definition added_line_html :: "py_dict option \<Rightarrow> string \<Rightarrow> string" where
  "added_line_html pr_details_for_annotation escaped_line_content =
     (if dict_truthy pr_details_for_annotation
      then annotated_added_html (the pr_details_for_annotation) escaped_line_content
      else plain_added_html escaped_line_content)"

text \<open>
  The state of the reconstruction is \<open>(current_base_line_idx, patched_lines_html_result)\<close>.

  \<open>copy_base_range\<close> is the loop
  \<open>for i in range(a, e): patched_lines_html_result.append(html.escape(base_lines[i]))\<close>
  of lines 294 to 295 and 324 to 325, with the list access checked.
\<close>

type_synonym patch_state = "int \<times> string list"

function copy_base_range :: "string list \<Rightarrow> int \<Rightarrow> int \<Rightarrow> string list \<Rightarrow> py_error + string list" where
  "copy_base_range base_lines i e acc =
     (if i < e then
        (case py_index base_lines i of
           Inl err \<Rightarrow> Inl err
         | Inr l \<Rightarrow> copy_base_range base_lines (i + 1) e (acc @ [html_escape l]))
      else Inr acc)"
  by pat_completeness auto
termination
  by (relation "measure (\<lambda>(base_lines, i, e, acc). nat (e - i))") auto

text \<open>
  Lines 288 to 299: placing the cursor before a hunk's body, from \<open>old_start_1based\<close>.
\<close>

definition position_cursor :: "string list \<Rightarrow> int \<Rightarrow> patch_state \<Rightarrow> py_error + patch_state" where
  "position_cursor base_lines old_start_1based st =
     (case st of (current_base_line_idx, res) \<Rightarrow>
        let lines_to_copy_from_base_before_hunk = (old_start_1based - 1) - current_base_line_idx
        in if lines_to_copy_from_base_before_hunk > 0 then
             (let end0 = current_base_line_idx + lines_to_copy_from_base_before_hunk;
                  end_copy_idx = (if end0 > int (length base_lines) then int (length base_lines) else end0)
              in case copy_base_range base_lines current_base_line_idx end_copy_idx res of
                   Inl err \<Rightarrow> Inl err
                 | Inr res' \<Rightarrow> Inr (end_copy_idx, res'))
           else if lines_to_copy_from_base_before_hunk < 0 then
             (if old_start_1based > 0 then Inr (old_start_1based - 1, res)
              else Inr (current_base_line_idx, res))
           else Inr (current_base_line_idx, res))"

text \<open>Lines 301 to 321: one line of a hunk's body.\<close>

definition body_line_step ::
  "string list \<Rightarrow> py_dict option \<Rightarrow> patch_state \<Rightarrow> string \<Rightarrow> patch_state" where
  "body_line_step base_lines pr_details_for_annotation st hunk_body_line =
     (case st of (current_base_line_idx, res) \<Rightarrow>
        let escaped_line_content = html_escape (drop 1 hunk_body_line)
        in if startswith hunk_body_line ''+'' then
             (current_base_line_idx,
              res @ [added_line_html pr_details_for_annotation escaped_line_content])
           else if startswith hunk_body_line ''-'' then
             (if current_base_line_idx < int (length base_lines)
              then (current_base_line_idx + 1, res)
              else (current_base_line_idx, res))
           else if startswith hunk_body_line '' '' then
             (if current_base_line_idx < int (length base_lines)
              then (current_base_line_idx + 1, res @ [escaped_line_content])
              else (current_base_line_idx, res @ [escaped_line_content]))
           else (current_base_line_idx, res))"

text \<open>
  Lines 283 to 321: the loop over the hunk sections.  A header that the pattern does not
  match is skipped with its body (\<open>continue\<close>); the conversion of \<open>old_start\<close> may raise.
\<close>

fun apply_hunks ::
  "string list \<Rightarrow> py_dict option \<Rightarrow> hunk_section list \<Rightarrow> patch_state \<Rightarrow> py_error + patch_state" where
  "apply_hunks base_lines ann [] st = Inr st"
| "apply_hunks base_lines ann ((header_line, body_lines) # rest) st =
     (case re_search_header header_line of
        None \<Rightarrow> apply_hunks base_lines ann rest st
      | Some m \<Rightarrow>
          (case old_start m of
             Inl err \<Rightarrow> Inl err
           | Inr old_start_1based \<Rightarrow>
               (case position_cursor base_lines old_start_1based st of
                  Inl err \<Rightarrow> Inl err
                | Inr st1 \<Rightarrow>
                    apply_hunks base_lines ann rest
                      (foldl (body_line_step base_lines ann) st1 body_lines))))"

text \<open>
  Lines 323 to 327: the rest of the base after the last hunk, and the joined result.
\<close>

definition copy_tail :: "string list \<Rightarrow> patch_state \<Rightarrow> py_error + string list" where
  "copy_tail base_lines st =
     (case st of (current_base_line_idx, res) \<Rightarrow>
        if current_base_line_idx < int (length base_lines)
        then copy_base_range base_lines current_base_line_idx (int (length base_lines)) res
        else Inr res)"

text \<open>
  The list \<open>patched_lines_html_result\<close> at the end of the function, for a patch that has
  hunk sections.
\<close>

definition patched_lines ::
  "string list \<Rightarrow> py_dict option \<Rightarrow> hunk_section list \<Rightarrow> py_error + string list" where
  "patched_lines base_lines ann hunk_sections =
     (case apply_hunks base_lines ann hunk_sections (0, []) of
        Inl err \<Rightarrow> Inl err
      | Inr st \<Rightarrow> copy_tail base_lines st)"

text \<open>
  The whole function.  \<open>base_content_str\<close> and \<open>patch_string\<close> may be \<open>None\<close>.  With no
  hunk section the code computes a flag from the patch text and returns
  \<open>html.escape(base_content_str)\<close> on both of its branches (lines 271 to 279).
\<close>

definition apply_patch_to_content ::
  "string option \<Rightarrow> string option \<Rightarrow> py_dict option \<Rightarrow> py_error + string" where
  "apply_patch_to_content base_content_str patch_string pr_details_for_annotation =
     (if patch_string = None \<or> patch_string = Some [] then
        (case base_content_str of
           None \<Rightarrow> Inr []
         | Some b \<Rightarrow> if b = [] then Inr [] else Inr (html_escape b))
      else
        (let base_str = (case base_content_str of None \<Rightarrow> [] | Some b \<Rightarrow> b);
             base_lines = splitlines base_str;
             raw_patch_lines = splitlines (the patch_string);
             hunk_sections = hunk_sections_of raw_patch_lines
         in if hunk_sections = [] then Inr (html_escape base_str)
            else (case patched_lines base_lines pr_details_for_annotation hunk_sections of
                    Inl err \<Rightarrow> Inl err
                  | Inr res \<Rightarrow> Inr (join_nl res))))"

section \<open>\<open>generate_interleaved_lines_for_all_prs\<close>: overlaying all patches\<close>

text \<open>
  \<open>int(x)\<close> on a string, the sort key of line 690: white space around the number is
  stripped, a sign may follow, then decimal digits in which single underscores may stand
  between two digits.  Any other string raises \<open>ValueError\<close> (here \<open>None\<close>), and so does a
  number of more than 4300 digits.  The white space that \<open>int\<close> strips is \<open>\t\<close>, \<open>\n\<close>,
  \<open>\v\<close>, \<open>\f\<close>, \<open>\r\<close>, the space, \<open>\x85\<close> and \<open>\xa0\<close>; the separators \<open>\x1c\<close> to \<open>\x1f\<close>
  are not stripped and make the string invalid.
\<close>

definition is_space :: "char \<Rightarrow> bool" where
  "is_space c =
     (let n = (of_char c :: nat)
      in (9 \<le> n \<and> n \<le> 13) \<or> n = 32 \<or> n = 133 \<or> n = 160)"

definition strip :: "string \<Rightarrow> string" where
  "strip s = rev (dropWhile is_space (rev (dropWhile is_space s)))"

fun no_double_underscore :: "string \<Rightarrow> bool" where
  "no_double_underscore (c # d # cs) =
     (\<not> (c = CHR ''_'' \<and> d = CHR ''_'') \<and> no_double_underscore (d # cs))"
| "no_double_underscore _ = True"

definition valid_int_body :: "string \<Rightarrow> bool" where
  "valid_int_body b =
     (b \<noteq> [] \<and> is_digit (hd b) \<and> is_digit (last b) \<and>
      list_all (\<lambda>c. is_digit c \<or> c = CHR ''_'') b \<and> no_double_underscore b)"

definition py_int :: "string \<Rightarrow> int option" where
  "py_int x =
     (let t = strip x;
          neg = startswith t ''-'';
          b = (if startswith t ''-'' \<or> startswith t ''+'' then drop 1 t else t)
      in if valid_int_body b \<and> length (filter is_digit b) \<le> int_max_str_digits
         then Some ((if neg then - 1 else 1) * digits_to_int (filter is_digit b))
         else None)"

text \<open>
  The dictionaries of the function.  \<open>relevant_prs_data\<close> maps a change-set number (a
  string) to a dictionary with the keys \<open>patch\<close>, \<open>title\<close>, \<open>html_url\<close> and
  \<open>local_pr_page_link\<close>, each of which may be missing (\<open>None\<close>); it is an association
  list in insertion order.  \<open>pr_details\<close> is the dictionary built at lines 698 to 703, and
  a line object is the dictionary \<open>{'text': .., 'type': .., 'pr_info': ..}\<close>.
\<close>

record pr_data =
  pd_patch :: "string option"
  pd_title :: "string option"
  pd_html_url :: "string option"
  pd_local_pr_page_link :: "string option"

record pr_details =
  number :: string
  title :: string
  html_url :: string
  local_pr_page_link :: string

record line_obj =
  obj_text :: string
  obj_type :: string
  obj_pr_info :: "pr_details option"

type_synonym additions_map = "int \<rightharpoonup> line_obj list"

definition opt_default :: "string option \<Rightarrow> string \<Rightarrow> string" where
  "opt_default v dflt = (case v of None \<Rightarrow> dflt | Some s \<Rightarrow> s)"

definition make_pr_details :: "string \<Rightarrow> pr_data \<Rightarrow> pr_details" where
  "make_pr_details pr_num_str d =
     \<lparr>number = pr_num_str,
      title = html_escape (opt_default (pd_title d) ''Unknown PR''),
      html_url = opt_default (pd_html_url d) ''#'',
      local_pr_page_link = opt_default (pd_local_pr_page_link d) ''#''\<rparr>"

definition base_obj :: "string \<Rightarrow> line_obj" where
  "base_obj line = \<lparr>obj_text = html_escape line, obj_type = ''base'', obj_pr_info = None\<rparr>"

definition added_obj :: "pr_details \<Rightarrow> string \<Rightarrow> line_obj" where
  "added_obj details hunk_line =
     \<lparr>obj_text = html_escape (drop 1 hunk_line), obj_type = ''added'', obj_pr_info = Some details\<rparr>"

text \<open>Lines 731 to 733: appending to the list stored under a key, created when missing.\<close>

definition lookup_additions :: "additions_map \<Rightarrow> int \<Rightarrow> line_obj list" where
  "lookup_additions m k = (case m k of None \<Rightarrow> [] | Some objs \<Rightarrow> objs)"

definition add_line :: "additions_map \<Rightarrow> int \<Rightarrow> line_obj \<Rightarrow> additions_map" where
  "add_line m insertion_key obj =
     (let m1 = (if m insertion_key = None then m(insertion_key \<mapsto> []) else m)
      in m1(insertion_key \<mapsto> lookup_additions m1 insertion_key @ [obj]))"

text \<open>
  Lines 726 to 737: one line of a hunk's body.  The state is
  \<open>(additions_map, temp_base_line_offset_in_hunk)\<close>.
\<close>

definition merge_body_step ::
  "pr_details \<Rightarrow> int \<Rightarrow> additions_map \<times> int \<Rightarrow> string \<Rightarrow> additions_map \<times> int" where
  "merge_body_step details target_insertion_line_0_idx st hunk_line =
     (case st of (m, temp_base_line_offset_in_hunk) \<Rightarrow>
        if startswith hunk_line ''+'' then
          (add_line m (target_insertion_line_0_idx + temp_base_line_offset_in_hunk)
             (added_obj details hunk_line),
           temp_base_line_offset_in_hunk)
        else if startswith hunk_line ''-'' then (m, temp_base_line_offset_in_hunk + 1)
        else if startswith hunk_line '' '' then (m, temp_base_line_offset_in_hunk + 1)
        else (m, temp_base_line_offset_in_hunk))"

text \<open>Lines 719 to 737: one hunk section, and the loop over the hunk sections.\<close>

definition target_of :: "int \<Rightarrow> int" where
  "target_of old_start_1based = (if old_start_1based > 0 then old_start_1based - 1 else - 1)"

definition merge_hunk ::
  "pr_details \<Rightarrow> additions_map \<Rightarrow> hunk_section \<Rightarrow> py_error + additions_map" where
  "merge_hunk details m hs =
     (case hs of (header, body) \<Rightarrow>
        (case re_search_header header of
           None \<Rightarrow> Inr m
         | Some mt \<Rightarrow>
             (case old_start mt of
                Inl err \<Rightarrow> Inl err
              | Inr old_start_1based \<Rightarrow>
                  Inr (fst (foldl (merge_body_step details (target_of old_start_1based))
                              (m, 0) body)))))"

fun merge_hunks ::
  "pr_details \<Rightarrow> additions_map \<Rightarrow> hunk_section list \<Rightarrow> py_error + additions_map" where
  "merge_hunks details m [] = Inr m"
| "merge_hunks details m (hs # rest) =
     (case merge_hunk details m hs of
        Inl err \<Rightarrow> Inl err
      | Inr m' \<Rightarrow> merge_hunks details m' rest)"

text \<open>Lines 692 to 737: one change-set, looked up under its key.\<close>

definition merge_pr ::
  "(string \<times> pr_data) list \<Rightarrow> additions_map \<Rightarrow> string \<Rightarrow> py_error + additions_map" where
  "merge_pr relevant_prs_data m pr_num_str =
     (case map_of relevant_prs_data pr_num_str of
        None \<Rightarrow> Inl KeyError
      | Some d \<Rightarrow>
          if pd_patch d = None \<or> pd_patch d = Some [] then Inr m
          else merge_hunks (make_pr_details pr_num_str d) m
                 (merge_hunk_sections_of (splitlines (the (pd_patch d)))))"

fun merge_prs ::
  "(string \<times> pr_data) list \<Rightarrow> additions_map \<Rightarrow> string list \<Rightarrow> py_error + additions_map" where
  "merge_prs relevant_prs_data m [] = Inr m"
| "merge_prs relevant_prs_data m (pr_num_str # rest) =
     (case merge_pr relevant_prs_data m pr_num_str of
        Inl err \<Rightarrow> Inl err
      | Inr m' \<Rightarrow> merge_prs relevant_prs_data m' rest)"

text \<open>
  Line 690: \<open>sorted(relevant_prs_data.keys(), key=lambda x: int(x))\<close>, a stable sort that
  raises as soon as one key is not a number.
\<close>

definition sorted_pr_numbers :: "(string \<times> pr_data) list \<Rightarrow> py_error + string list" where
  "sorted_pr_numbers relevant_prs_data =
     (if list_all (\<lambda>k. py_int k \<noteq> None) (map fst relevant_prs_data)
      then Inr (sort_key (\<lambda>k. the (py_int k)) (map fst relevant_prs_data))
      else Inl ValueError)"

text \<open>Lines 739 to 750: the output, from the base lines and the additions.\<close>

definition final_lines :: "string list \<Rightarrow> additions_map \<Rightarrow> line_obj list" where
  "final_lines base_lines m =
     lookup_additions m (- 1) @
     concat (map (\<lambda>(i, base_line_text). base_obj base_line_text # lookup_additions m (int i))
               (enumerate 0 base_lines))"

definition generate_interleaved_lines_for_all_prs ::
  "string option \<Rightarrow> (string \<times> pr_data) list \<Rightarrow> py_error + line_obj list" where
  "generate_interleaved_lines_for_all_prs base_content_str relevant_prs_data =
     (let base_lines = splitlines (case base_content_str of None \<Rightarrow> [] | Some b \<Rightarrow> b)
      in case sorted_pr_numbers relevant_prs_data of
           Inl err \<Rightarrow> Inl err
         | Inr keys \<Rightarrow>
             (case merge_prs relevant_prs_data Map.empty keys of
                Inl err \<Rightarrow> Inl err
              | Inr m \<Rightarrow> Inr (final_lines base_lines m)))"

section \<open>Auxiliary notions for the proofs\<close>

text \<open>The cursor of the reconstruction lies within the base.\<close>

definition cursor_ok :: "string list \<Rightarrow> patch_state \<Rightarrow> bool" where
  "cursor_ok base_lines st = (0 \<le> fst st \<and> fst st \<le> int (length base_lines))"

text \<open>The lines that open a hunk section, and the lines of the sections in text order.\<close>

definition is_header_line :: "string \<Rightarrow> bool" where
  "is_header_line l = startswith l ''@@''"

definition flat_sections :: "hunk_section list \<Rightarrow> string list" where
  "flat_sections hs = concat (map (\<lambda>(h, b). h # b) hs)"

text \<open>Invariants of the scan: header and body are open together; sections are well formed.\<close>

definition scan_inv :: "scan_state \<Rightarrow> bool" where
  "scan_inv st = (case st of (secs, hdr, body) \<Rightarrow> (hdr = None \<longleftrightarrow> body = None))"

definition section_ok :: "hunk_section \<Rightarrow> bool" where
  "section_ok hs = (case hs of (h, b) \<Rightarrow> is_header_line h \<and> list_all is_body_line b)"

definition scan_shape :: "scan_state \<Rightarrow> bool" where
  "scan_shape st = (case st of (secs, hdr, body) \<Rightarrow>
     list_all section_ok secs \<and>
     (case hdr of None \<Rightarrow> True | Some h \<Rightarrow> is_header_line h) \<and>
     (case body of None \<Rightarrow> True | Some b \<Rightarrow> list_all is_body_line b))"

text \<open>The states of the two scans that correspond to each other.\<close>

definition scan_rel :: "scan_state \<Rightarrow> merge_scan_state \<Rightarrow> bool" where
  "scan_rel st mst = (case (st, mst) of ((secs, hdr, body), (msecs, mhdr, mbody)) \<Rightarrow>
     secs = msecs \<and> hdr = mhdr \<and>
     (case hdr of None \<Rightarrow> body = None \<and> mbody = []
      | Some h \<Rightarrow> is_header_line h \<and> body = Some mbody))"

text \<open>The hunk sections that survive: those whose header the pattern matches.\<close>

definition header_matches :: "hunk_section \<Rightarrow> bool" where
  "header_matches hs = (re_search_header (fst hs) \<noteq> None)"

text \<open>
  The inputs on which \<open>int\<close> does not raise: a hunk section whose header, if it matches,
  has an \<open>old_start\<close> of at most 4300 digits; a change-set whose patch has such sections
  only; a mapping of such change-sets.
\<close>

definition header_in_limit :: "hunk_section \<Rightarrow> bool" where
  "header_in_limit hs =
     (case re_search_header (fst hs) of
        None \<Rightarrow> True
      | Some m \<Rightarrow> length (group1 m) \<le> int_max_str_digits)"

definition pr_in_limit :: "pr_data \<Rightarrow> bool" where
  "pr_in_limit d =
     (pd_patch d = None \<or> pd_patch d = Some [] \<or>
      list_all header_in_limit (merge_hunk_sections_of (splitlines (the (pd_patch d)))))"

definition prs_in_limit :: "(string \<times> pr_data) list \<Rightarrow> bool" where
  "prs_in_limit prs = list_all (\<lambda>k. pr_in_limit (the (map_of prs k))) (map fst prs)"

text \<open>
  The insertions of the merge as a list of pairs (key, line object), in the order in which
  the function appends them: per body, per hunk section, per change-set and overall.
\<close>

fun body_pairs :: "pr_details \<Rightarrow> int \<Rightarrow> int \<Rightarrow> string list \<Rightarrow> (int \<times> line_obj) list" where
  "body_pairs details target off [] = []"
| "body_pairs details target off (l # ls) =
     (if startswith l ''+'' then (target + off, added_obj details l) # body_pairs details target off ls
      else if startswith l ''-'' \<or> startswith l '' '' then body_pairs details target (off + 1) ls
      else body_pairs details target off ls)"

definition hunk_pairs :: "pr_details \<Rightarrow> hunk_section \<Rightarrow> (int \<times> line_obj) list" where
  "hunk_pairs details hs =
     (case re_search_header (fst hs) of
        None \<Rightarrow> []
      | Some mt \<Rightarrow> body_pairs details (target_of (digits_to_int (group1 mt))) 0 (snd hs))"

definition pr_pairs :: "(string \<times> pr_data) list \<Rightarrow> string \<Rightarrow> (int \<times> line_obj) list" where
  "pr_pairs prs k =
     (case map_of prs k of
        None \<Rightarrow> []
      | Some d \<Rightarrow>
          if pd_patch d = None \<or> pd_patch d = Some [] then []
          else concat (map (hunk_pairs (make_pr_details k d))
                         (merge_hunk_sections_of (splitlines (the (pd_patch d))))))"

text \<open>Appending a list of pairs to a map, and the objects a list of pairs holds under a key.\<close>

definition add_pairs :: "additions_map \<Rightarrow> (int \<times> line_obj) list \<Rightarrow> additions_map" where
  "add_pairs m ps = foldl (\<lambda>m p. add_line m (fst p) (snd p)) m ps"

definition at_key :: "(int \<times> line_obj) list \<Rightarrow> int \<Rightarrow> line_obj list" where
  "at_key ps k = map snd (filter (\<lambda>p. fst p = k) ps)"

text \<open>
  All keys are numbers (\<open>int\<close> does not raise); the order in which the change-sets are
  processed; the output in terms of the list of pairs.
\<close>

definition keys_numeric :: "(string \<times> pr_data) list \<Rightarrow> bool" where
  "keys_numeric prs = list_all (\<lambda>k. py_int k \<noteq> None) (map fst prs)"

definition key_order :: "(string \<times> pr_data) list \<Rightarrow> string list" where
  "key_order prs = sort_key (\<lambda>k. the (py_int k)) (map fst prs)"

definition all_pairs :: "(string \<times> pr_data) list \<Rightarrow> (int \<times> line_obj) list" where
  "all_pairs prs = concat (map (pr_pairs prs) (key_order prs))"

definition interleave :: "string list \<Rightarrow> (int \<times> line_obj) list \<Rightarrow> line_obj list" where
  "interleave base_lines ps =
     at_key ps (- 1) @
     concat (map (\<lambda>(i, l). base_obj l # at_key ps (int i)) (enumerate 0 base_lines))"

text \<open>
  What one change-set alone inserts under a key: the function's own step for that
  change-set, run on the empty map.
\<close>

definition source_additions :: "string \<Rightarrow> pr_data \<Rightarrow> int \<Rightarrow> line_obj list" where
  "source_additions k d key =
     (case merge_pr [(k, d)] Map.empty k of
        Inl err \<Rightarrow> []
      | Inr m \<Rightarrow> lookup_additions m key)"

text \<open>
  Two hunk sections with the same body whose headers give the same \<open>old_start\<close> (or both
  fail to match); two patch texts whose sections correspond in this way; two entries of
  the mapping that differ at most in this way.
\<close>

definition same_old_start :: "hunk_section \<Rightarrow> hunk_section \<Rightarrow> bool" where
  "same_old_start hs1 hs2 =
     (snd hs1 = snd hs2 \<and> old_start_of_header (fst hs1) = old_start_of_header (fst hs2))"

definition patches_agree :: "string \<Rightarrow> string \<Rightarrow> bool" where
  "patches_agree p1 p2 =
     list_all2 same_old_start (hunk_sections_of (splitlines p1)) (hunk_sections_of (splitlines p2))"

definition entries_agree :: "string \<times> pr_data \<Rightarrow> string \<times> pr_data \<Rightarrow> bool" where
  "entries_agree e1 e2 =
     (fst e1 = fst e2 \<and> pd_title (snd e1) = pd_title (snd e2) \<and>
      pd_html_url (snd e1) = pd_html_url (snd e2) \<and>
      pd_local_pr_page_link (snd e1) = pd_local_pr_page_link (snd e2) \<and>
      rel_option patches_agree (pd_patch (snd e1)) (pd_patch (snd e2)))"

section \<open>Properties\<close>

subsection \<open>The cursor stays in range\<close>

declare copy_base_range.simps [simp del]

declare re_search_header.simps [simp del]

lemma copy_base_range_in_bounds:
  "0 \<le> i \<Longrightarrow> e \<le> int (length base_lines) \<Longrightarrow>
   copy_base_range base_lines i e acc =
     Inr (acc @ map html_escape (take (nat (e - i)) (drop (nat i) base_lines)))"
proof (induction base_lines i e acc rule: copy_base_range.induct)
  case (1 base_lines i e acc)
  show ?case
  proof (cases "i < e")
    case False
    then show ?thesis by (subst copy_base_range.simps) simp
  next
    case True
    with "1.prems" have lt: "nat i < length base_lines" by linarith
    have idx: "py_index base_lines i = Inr (base_lines ! nat i)"
      using "1.prems" True by (simp add: py_index_def)
    have step: "copy_base_range base_lines (i + 1) e (acc @ [html_escape (base_lines ! nat i)]) =
        Inr ((acc @ [html_escape (base_lines ! nat i)]) @
             map html_escape (take (nat (e - (i + 1))) (drop (nat (i + 1)) base_lines)))"
      using "1.IH"[OF True idx] "1.prems" by simp
    have n1: "nat (e - i) = Suc (nat (e - (i + 1)))" using True by simp
    have n2: "nat (i + 1) = Suc (nat i)" using "1.prems" by simp
    have "take (nat (e - i)) (drop (nat i) base_lines) =
          base_lines ! nat i # take (nat (e - (i + 1))) (drop (nat (i + 1)) base_lines)"
      unfolding n1 n2 using lt by (simp add: Cons_nth_drop_Suc[symmetric])
    then show ?thesis
      using True idx step by (subst copy_base_range.simps) simp
  qed
qed

lemma position_cursor_ok:
  assumes "cursor_ok base_lines st" "0 \<le> os"
  shows "\<exists>st'. position_cursor base_lines os st = Inr st' \<and> cursor_ok base_lines st'"
proof -
  obtain idx res where st: "st = (idx, res)" by (cases st)
  from assms st have b: "0 \<le> idx" "idx \<le> int (length base_lines)" by (simp_all add: cursor_ok_def)
  show ?thesis
  proof (cases "os - 1 - idx > 0")
    case True
    define e where "e = (if os - 1 > int (length base_lines) then int (length base_lines) else os - 1)"
    have e: "e \<le> int (length base_lines)" "0 \<le> e" using True b by (auto simp: e_def)
    show ?thesis
      using True e copy_base_range_in_bounds[OF b(1) e(1), of res]
      by (simp add: st position_cursor_def Let_def cursor_ok_def e_def)
  next
    case False
    then show ?thesis using b assms(2)
      by (auto simp: st position_cursor_def Let_def cursor_ok_def)
  qed
qed

lemma body_line_step_ok:
  "cursor_ok base_lines st \<Longrightarrow> cursor_ok base_lines (body_line_step base_lines ann st l)"
  by (cases st) (auto simp: body_line_step_def cursor_ok_def Let_def)

lemma foldl_body_ok:
  "cursor_ok base_lines st \<Longrightarrow> cursor_ok base_lines (foldl (body_line_step base_lines ann) st ls)"
  by (induction ls arbitrary: st) (simp_all add: body_line_step_ok)

lemma digits_to_int_nonneg_aux:
  "0 \<le> a \<Longrightarrow> list_all is_digit ds \<Longrightarrow> 0 \<le> foldl (\<lambda>a c. 10 * a + digit_val c) a ds"
  by (induction ds arbitrary: a) (auto simp: is_digit_def digit_val_def)

lemma match_header_at_group1:
  "match_header_at s = Some m \<Longrightarrow> list_all is_digit (group1 m)"
  by (auto simp: match_header_at_def match_digits_def list_all_iff
           split: option.splits prod.splits if_splits dest: set_takeWhileD)

lemma re_search_header_group1:
  "re_search_header s = Some m \<Longrightarrow> list_all is_digit (group1 m)"
  by (induction s) (auto simp: re_search_header.simps match_header_at_group1 split: option.splits)

lemma old_start_cases:
  "old_start m =
     (if length (group1 m) \<le> int_max_str_digits then Inr (digits_to_int (group1 m))
      else Inl ValueError)"
  by (simp add: old_start_def int_of_digits_def)

lemma old_start_nonneg: "re_search_header s = Some m \<Longrightarrow> old_start m = Inr os \<Longrightarrow> 0 \<le> os"
proof -
  assume m: "re_search_header s = Some m" and o: "old_start m = Inr os"
  from o have "os = digits_to_int (group1 m)"
    by (simp add: old_start_cases split: if_splits)
  moreover have "0 \<le> foldl (\<lambda>a c. 10 * a + digit_val c) 0 (group1 m)"
    by (rule digits_to_int_nonneg_aux) (simp_all add: re_search_header_group1[OF m])
  ultimately show ?thesis by (simp add: digits_to_int_def)
qed

lemma apply_hunks_ok:
  "cursor_ok base_lines st \<Longrightarrow>
   (if list_all header_in_limit hs
    then \<exists>st'. apply_hunks base_lines ann hs st = Inr st' \<and> cursor_ok base_lines st'
    else apply_hunks base_lines ann hs st = Inl ValueError)"
proof (induction hs arbitrary: st)
  case Nil
  then show ?case by simp
next
  case (Cons h hs)
  obtain header body where h: "h = (header, body)" by (cases h)
  show ?case
  proof (cases "re_search_header header")
    case None
    then have "header_in_limit h" by (simp add: h header_in_limit_def)
    then show ?thesis using Cons.IH[OF Cons.prems] None by (auto simp: h split: if_splits)
  next
    case (Some m)
    show ?thesis
    proof (cases "length (group1 m) \<le> int_max_str_digits")
      case False
      then have "\<not> header_in_limit h" by (simp add: h header_in_limit_def Some)
      then show ?thesis using False Some by (simp add: h old_start_cases)
    next
      case True
      then have lim: "header_in_limit h" by (simp add: h header_in_limit_def Some)
      have o: "old_start m = Inr (digits_to_int (group1 m))"
        using True by (simp add: old_start_cases)
      from position_cursor_ok[OF Cons.prems old_start_nonneg[OF Some o]]
      obtain st1 where p: "position_cursor base_lines (digits_to_int (group1 m)) st = Inr st1"
        and ok1: "cursor_ok base_lines st1" by blast
      from Cons.IH[OF foldl_body_ok[OF ok1]] show ?thesis
        using lim by (auto simp: h Some o p split: if_splits)
    qed
  qed
qed

lemma copy_tail_total:
  "cursor_ok base_lines st \<Longrightarrow>
   copy_tail base_lines st = Inr (snd st @ map html_escape (drop (nat (fst st)) base_lines))"
proof -
  obtain idx res where st: "st = (idx, res)" by (cases st)
  assume "cursor_ok base_lines st"
  with st have b: "0 \<le> idx" "idx \<le> int (length base_lines)" by (simp_all add: cursor_ok_def)
  have "nat (int (length base_lines) - idx) = length base_lines - nat idx" using b by linarith
  then show ?thesis
    using b copy_base_range_in_bounds[OF b(1) order_refl, of base_lines res]
    by (simp add: st copy_tail_def)
qed

lemma patched_lines_result:
  "if list_all header_in_limit hs
   then \<exists>res. patched_lines base_lines ann hs = Inr res
   else patched_lines base_lines ann hs = Inl ValueError"
proof -
  have "cursor_ok base_lines (0, [])" by (simp add: cursor_ok_def)
  from apply_hunks_ok[OF this, of hs ann] show ?thesis
    by (auto simp: patched_lines_def copy_tail_total split: if_splits)
qed

lemma apply_patch_result:
  "(\<exists>out. apply_patch_to_content base_content_str patch_string ann = Inr out) \<or>
   apply_patch_to_content base_content_str patch_string ann = Inl ValueError"
  using patched_lines_result[of "hunk_sections_of (splitlines (the patch_string))"
          "splitlines (case base_content_str of None \<Rightarrow> [] | Some b \<Rightarrow> b)" ann]
  by (auto simp: apply_patch_to_content_def Let_def split: option.splits if_splits)

text \<open>
  C9: for every base, patch and annotation no access to the base raises \<open>IndexError\<close>: the
  reconstruction returns a result, or \<open>int\<close> has raised \<open>ValueError\<close> on a header number of
  more than 4300 digits before any access of that hunk.  After any list of hunk sections
  the cursor lies between 0 and the number of base lines, and both copy loops stop at the
  number of base lines.
\<close>

theorem apply_patch_never_out_of_range:
  "apply_patch_to_content base_content_str patch_string ann \<noteq> Inl IndexError \<and>
   ((\<exists>out. apply_patch_to_content base_content_str patch_string ann = Inr out) \<or>
    apply_patch_to_content base_content_str patch_string ann = Inl ValueError) \<and>
   (case apply_hunks base_lines ann hs (0, []) of
      Inl err \<Rightarrow> err = ValueError
    | Inr (idx, res) \<Rightarrow> 0 \<le> idx \<and> idx \<le> int (length base_lines))"
proof -
  have r: "(\<exists>out. apply_patch_to_content base_content_str patch_string ann = Inr out) \<or>
      apply_patch_to_content base_content_str patch_string ann = Inl ValueError"
    by (rule apply_patch_result)
  then have n: "apply_patch_to_content base_content_str patch_string ann \<noteq> Inl IndexError"
    by auto
  have "cursor_ok base_lines (0, [])"
    by (simp add: cursor_ok_def)
  from apply_hunks_ok[OF this, of hs ann]
  have "case apply_hunks base_lines ann hs (0, []) of
      Inl err \<Rightarrow> err = ValueError
    | Inr (idx, res) \<Rightarrow> 0 \<le> idx \<and> idx \<le> int (length base_lines)"
    by (auto simp: cursor_ok_def split: if_splits)
  with r n show ?thesis by blast
qed

subsection \<open>Placing the cursor, and added lines\<close>

text \<open>
  C3 (as amended): for a hunk whose gap \<open>(old_start - 1) - base_idx\<close> is negative, nothing is
  copied or raised; when \<open>old_start\<close> is positive the cursor is set to
  \<open>old_start - 1 = max(old_start - 1, 0)\<close> before the body is walked, and when
  \<open>old_start\<close> is 0 the cursor stays where it is.
\<close>

theorem negative_gap_cursor:
  assumes "re_search_header header_line = Some m"
      and "old_start m = Inr old_start_1based"
      and "(old_start_1based - 1) - idx < 0"
  shows "position_cursor base_lines old_start_1based (idx, res) =
           Inr (if old_start_1based > 0 then old_start_1based - 1 else idx, res)
         \<and> apply_hunks base_lines ann ((header_line, body_lines) # rest) (idx, res) =
           apply_hunks base_lines ann rest
             (foldl (body_line_step base_lines ann)
                (if old_start_1based > 0 then max (old_start_1based - 1) 0 else idx, res) body_lines)"
proof -
  have p: "position_cursor base_lines old_start_1based (idx, res) =
           Inr (if old_start_1based > 0 then old_start_1based - 1 else idx, res)"
    using assms(3) by (simp add: position_cursor_def Let_def)
  have "old_start_1based > 0 \<Longrightarrow> max (old_start_1based - 1) 0 = old_start_1based - 1" by simp
  then show ?thesis using p assms(1,2) by simp
qed

theorem negative_gap_cursor_witness:
  "re_search_header ''@@ -2,1 +2,1 @@'' = Some \<lparr>group1 = ''2'', group3 = Some ''1'', group4 = ''2'', group6 = Some ''1''\<rparr>
   \<and> old_start \<lparr>group1 = ''2'', group3 = Some ''1'', group4 = ''2'', group6 = Some ''1''\<rparr> = Inr 2
   \<and> position_cursor [''a'', ''b'', ''c''] 2 (3, [''a'', ''b'', ''c'']) = Inr (1, [''a'', ''b'', ''c''])"
proof -
  have h: "re_search_header ''@@ -2,1 +2,1 @@'' =
      Some \<lparr>group1 = ''2'', group3 = Some ''1'', group4 = ''2'', group6 = Some ''1''\<rparr>"
    by code_simp
  have o: "old_start \<lparr>group1 = ''2'', group3 = Some ''1'', group4 = ''2'', group6 = Some ''1''\<rparr> = Inr 2"
    by code_simp
  have g: "((2::int) - 1) - 3 < 0"
    by simp
  show ?thesis
    using negative_gap_cursor[OF h o g, of "[''a'', ''b'', ''c'']" "[''a'', ''b'', ''c'']" None "[]" "[]"] h o
    by simp
qed

text \<open>
  C3 as stated fails for \<open>old_start = 0\<close>: with the cursor at 3 the gap is negative, and
  the cursor stays at 3 where the claim says \<open>max(0 - 1, 0) = 0\<close>.  The state arises in
  the patch below, after its first hunk; the three base lines are not emitted again after
  the added line, as they would be from cursor 0.
\<close>

theorem snap_to_zero_counterexample:
  \<open>(0 - 1) - 3 < (0::int) \<and>
   position_cursor [''a'', ''b'', ''c''] 0 (3, [''a'', ''b'', ''c'']) = Inr (3, [''a'', ''b'', ''c'']) \<and>
   max (0 - 1) 0 \<noteq> (3::int) \<and>
   apply_patch_to_content (Some ''a\<newline>b\<newline>c'')
     (Some ''@@ -3 +3 @@\<newline> c\<newline>@@ -0,0 +1 @@\<newline>+x'') None =
     Inr ''a\<newline>b\<newline>c\<newline><span class="added-line">x</span>''\<close>
proof -
  have "position_cursor [''a'', ''b'', ''c''] 0 (3, [''a'', ''b'', ''c'']) = Inr (3, [''a'', ''b'', ''c''])"
    by (simp add: position_cursor_def)
  moreover have \<open>apply_patch_to_content (Some ''a\<newline>b\<newline>c'')
     (Some ''@@ -3 +3 @@\<newline> c\<newline>@@ -0,0 +1 @@\<newline>+x'') None =
     Inr ''a\<newline>b\<newline>c\<newline><span class="added-line">x</span>''\<close>
    by code_simp
  ultimately show ?thesis by simp
qed

lemma plain_added_differs: "plain_added_html s \<noteq> s"
proof
  assume "plain_added_html s = s"
  then have "length (plain_added_html s) = length s" by simp
  then show False by (simp add: plain_added_html_def)
qed

lemma annotated_added_differs: "annotated_added_html d s \<noteq> s"
proof
  assume "annotated_added_html d s = s"
  then have "length (annotated_added_html d s) = length s" by simp
  then show False by (simp add: annotated_added_html_def Let_def)
qed

text \<open>
  C4 (as amended): an added body line leaves the cursor where it is and appends one line:
  the annotated span when the annotation is a dictionary that is not empty, the plain
  \<open>added-line\<close> span otherwise.  Either span differs from the text a base line would give.
\<close>

theorem added_line_emission:
  assumes "startswith hunk_body_line ''+''"
  shows "body_line_step base_lines ann (idx, res) hunk_body_line =
           (idx, res @ [if dict_truthy ann
                        then annotated_added_html (the ann) (html_escape (drop 1 hunk_body_line))
                        else plain_added_html (html_escape (drop 1 hunk_body_line))])
         \<and> plain_added_html (html_escape (drop 1 hunk_body_line)) \<noteq> html_escape (drop 1 hunk_body_line)
         \<and> annotated_added_html (the ann) (html_escape (drop 1 hunk_body_line)) \<noteq> html_escape (drop 1 hunk_body_line)"
  using assms
  by (simp add: body_line_step_def Let_def added_line_html_def plain_added_differs annotated_added_differs)

theorem added_line_emission_witness:
  \<open>startswith ''+x'' ''+'' \<and>
   body_line_step [''a''] (Some [(''number'', ''7''), (''title'', ''T'')]) (0, []) ''+x'' =
     (0, [''<span class="added-line pr-annotated" title="PR #7: T">x</span>''])\<close>
proof -
  have s: "startswith ''+x'' ''+''" by (simp add: startswith_def)
  show ?thesis
    using added_line_emission[OF s, of "[''a'']" "Some [(''number'', ''7''), (''title'', ''T'')]" 0 "[]"] s
    by (simp add: dict_truthy_def annotated_added_html_def dict_get_def html_escape_def escape_char_def)
qed

text \<open>
  C4 as stated fails without an annotation: the added line \<open>+x\<close> is emitted inside an
  \<open>added-line\<close> span, not as the base line \<open>x\<close> would be.
\<close>

theorem unannotated_added_counterexample:
  \<open>body_line_step [''a''] None (0, []) ''+x'' = (0, [''<span class="added-line">x</span>'']) \<and>
   body_line_step [''a''] None (0, []) ''+x'' \<noteq> (0, [html_escape ''x''])\<close>
  by (simp add: body_line_step_def startswith_def added_line_html_def dict_truthy_def
        plain_added_html_def html_escape_def escape_char_def)

subsection \<open>A patch without hunks\<close>

lemma splitlines_from_plain_prefix:
  "\<forall>x\<in>set pre. \<not> is_linebreak x \<Longrightarrow>
   splitlines_from cur (pre @ s) = splitlines_from (cur @ pre) s"
proof (induction pre arbitrary: cur)
  case Nil
  then show ?case by simp
next
  case (Cons x pre)
  then have nx: "\<not> is_linebreak x" and ncr: "x \<noteq> CHR 0x0D" by (auto simp: is_linebreak_def)
  have IH: "splitlines_from (cur @ [x]) (pre @ s) = splitlines_from ((cur @ [x]) @ pre) s"
    using Cons by simp
  show ?case
  proof (cases "pre @ s")
    case Nil
    then show ?thesis using nx by simp
  next
    case (Cons d ds)
    then have "splitlines_from cur (x # pre @ s) = splitlines_from (cur @ [x]) (pre @ s)"
      using nx ncr by simp
    then show ?thesis using IH by simp
  qed
qed

lemma escape_char_plain: "\<not> is_linebreak c \<Longrightarrow> \<forall>x\<in>set (escape_char c). \<not> is_linebreak x"
  by (auto simp: escape_char_def is_linebreak_def)

lemma escape_char_linebreak: "is_linebreak c \<Longrightarrow> escape_char c = [c]"
  by (auto simp: escape_char_def is_linebreak_def)

lemma html_escape_Cons: "html_escape (c # s) = escape_char c @ html_escape s"
  by (simp add: html_escape_def)

lemma html_escape_append: "html_escape (s @ t) = html_escape s @ html_escape t"
  by (simp add: html_escape_def)

lemma html_escape_Nil: "html_escape [] = []"
  by (simp add: html_escape_def)

lemma escape_char_nonempty: "escape_char c \<noteq> []"
  by (simp add: escape_char_def)

lemma html_escape_eq_Nil: "html_escape s = [] \<longleftrightarrow> s = []"
  by (cases s) (simp_all add: html_escape_Nil html_escape_Cons escape_char_nonempty)

lemma splitlines_from_escape:
  "splitlines_from (html_escape cur) (html_escape s) = map html_escape (splitlines_from cur s)"
proof (induction cur s rule: splitlines_from.induct)
  case (1 cur)
  then show ?case by (simp add: html_escape_Nil html_escape_eq_Nil)
next
  case (2 cur c)
  show ?case
  proof (cases "is_linebreak c")
    case True
    then show ?thesis by (simp add: html_escape_Cons html_escape_Nil escape_char_linebreak)
  next
    case False
    have "splitlines_from (html_escape cur) (escape_char c @ []) =
          splitlines_from (html_escape cur @ escape_char c) []"
      by (rule splitlines_from_plain_prefix) (rule escape_char_plain[OF False])
    then show ?thesis using False
      by (simp add: html_escape_Cons html_escape_Nil html_escape_append escape_char_nonempty)
  qed
next
  case (3 cur c d cs)
  show ?case
  proof (cases "c = CHR 0x0D \<and> d = CHR 0x0A")
    case True
    have e: "escape_char (CHR 0x0D) = [CHR 0x0D]" "escape_char (CHR 0x0A) = [CHR 0x0A]"
      by (simp_all add: escape_char_def)
    show ?thesis using True 3(1) by (simp add: html_escape_Cons e html_escape_Nil)
  next
    case nocrlf: False
    show ?thesis
    proof (cases "is_linebreak c")
      case True
      have e: "escape_char c = [c]" by (rule escape_char_linebreak[OF True])
      obtain y ys where yd: "html_escape (d # cs) = y # ys"
        using html_escape_eq_Nil[of "d # cs"] by (cases "html_escape (d # cs)") auto
      have y: "c = CHR 0x0D \<Longrightarrow> y \<noteq> CHR 0x0A"
      proof
        assume c: "c = CHR 0x0D" and "y = CHR 0x0A"
        with yd have "hd (escape_char d @ html_escape cs) = CHR 0x0A"
          by (simp add: html_escape_Cons)
        then have "hd (escape_char d) = CHR 0x0A"
          by (simp add: hd_append escape_char_nonempty)
        then have "d = CHR 0x0A" by (auto simp: escape_char_def split: if_splits)
        with c nocrlf show False by simp
      qed
      have "splitlines_from (html_escape cur) (c # y # ys) =
            html_escape cur # splitlines_from [] (y # ys)"
        using True y by auto
      then have lhs: "splitlines_from (html_escape cur) (html_escape (c # d # cs)) =
            html_escape cur # splitlines_from [] (html_escape (d # cs))"
        using yd by (simp add: html_escape_Cons[of c] e)
      have rhs: "splitlines_from cur (c # d # cs) = cur # splitlines_from [] (d # cs)"
        using True nocrlf by auto
      show ?thesis
        unfolding lhs rhs using 3(2)[OF nocrlf True] by (simp add: html_escape_Nil)
    next
      case False
      have "splitlines_from (html_escape cur) (escape_char c @ html_escape (d # cs)) =
            splitlines_from (html_escape cur @ escape_char c) (html_escape (d # cs))"
        by (rule splitlines_from_plain_prefix) (rule escape_char_plain[OF False])
      then have lhs: "splitlines_from (html_escape cur) (html_escape (c # d # cs)) =
            splitlines_from (html_escape (cur @ [c])) (html_escape (d # cs))"
        by (simp add: html_escape_Cons[of c] html_escape_append html_escape_Nil)
      have rhs: "splitlines_from cur (c # d # cs) = splitlines_from (cur @ [c]) (d # cs)"
        using False nocrlf by auto
      show ?thesis
        unfolding lhs rhs using 3(3)[OF nocrlf False] by simp
    qed
  qed
qed

lemma splitlines_escape: "splitlines (html_escape s) = map html_escape (splitlines s)"
  using splitlines_from_escape[of "[]" s] by (simp add: splitlines_def html_escape_Nil)

lemma apply_hunks_all_unmatched:
  "list_all (\<lambda>(h, b). re_search_header h = None) hs \<Longrightarrow> apply_hunks base_lines ann hs st = Inr st"
  by (induction hs arbitrary: st) auto

lemma hunk_sections_of_Nil: "hunk_sections_of [] = []"
  by (simp add: hunk_sections_of_def close_hunk_def)

lemma splitlines_Nil: "splitlines [] = []"
  by (simp add: splitlines_def)

text \<open>
  C6: when the patch yields no hunk (the patch text is \<open>None\<close> or empty, it has no
  \<open>@@\<close> line, or no header matches the pattern), the result is the base, escaped and
  otherwise unchanged, and nothing is raised: the escaped base text itself when there is
  no hunk section, and the escaped base lines joined by newlines otherwise.  Escaping
  commutes with the split into lines, so in both cases the lines are the base lines.
\<close>

theorem zero_hunks_identity:
  assumes "list_all (\<lambda>(h, b). re_search_header h = None)
             (hunk_sections_of (splitlines (case patch_string of None \<Rightarrow> [] | Some p \<Rightarrow> p)))"
  shows "apply_patch_to_content base_content_str patch_string ann =
           Inr (if hunk_sections_of (splitlines (case patch_string of None \<Rightarrow> [] | Some p \<Rightarrow> p)) = []
                then html_escape (case base_content_str of None \<Rightarrow> [] | Some b \<Rightarrow> b)
                else join_nl (map html_escape
                       (splitlines (case base_content_str of None \<Rightarrow> [] | Some b \<Rightarrow> b))))
         \<and> splitlines (html_escape (case base_content_str of None \<Rightarrow> [] | Some b \<Rightarrow> b)) =
             map html_escape (splitlines (case base_content_str of None \<Rightarrow> [] | Some b \<Rightarrow> b))"
proof -
  let ?base = "case base_content_str of None \<Rightarrow> [] | Some b \<Rightarrow> b"
  have pl: "patched_lines (splitlines ?base) ann (hunk_sections_of (splitlines p)) =
              Inr (map html_escape (splitlines ?base))"
    if "patch_string = Some p" for p
  proof -
    have "apply_hunks (splitlines ?base) ann (hunk_sections_of (splitlines p)) (0, []) = Inr (0, [])"
      using assms that by (simp add: apply_hunks_all_unmatched)
    moreover have "copy_tail (splitlines ?base) (0, []) = Inr (map html_escape (splitlines ?base))"
      by (simp add: copy_tail_total cursor_ok_def)
    ultimately show ?thesis by (simp add: patched_lines_def)
  qed
  have "apply_patch_to_content base_content_str patch_string ann =
           Inr (if hunk_sections_of (splitlines (case patch_string of None \<Rightarrow> [] | Some p \<Rightarrow> p)) = []
                then html_escape ?base else join_nl (map html_escape (splitlines ?base)))"
  proof (cases patch_string)
    case None
    then show ?thesis
      by (simp add: apply_patch_to_content_def splitlines_Nil hunk_sections_of_Nil html_escape_Nil
               split: option.splits)
  next
    case (Some p)
    show ?thesis
    proof (cases "p = []")
      case True
      then show ?thesis using Some
        by (simp add: apply_patch_to_content_def splitlines_Nil hunk_sections_of_Nil html_escape_Nil
                 split: option.splits)
    next
      case False
      then show ?thesis using Some pl[OF Some]
        by (simp add: apply_patch_to_content_def Let_def)
    qed
  qed
  then show ?thesis by (simp add: splitlines_escape)
qed

theorem zero_hunks_identity_witness:
  "list_all (\<lambda>(h, b). re_search_header h = None) (hunk_sections_of (splitlines ''@@ bad\<newline>+x''))
   \<and> apply_patch_to_content (Some ''a\<newline>b<'') (Some ''@@ bad\<newline>+x'') None = Inr ''a\<newline>b&lt;''
   \<and> apply_patch_to_content (Some ''a\<newline>b<'') (Some ''index 1'') None = Inr ''a\<newline>b&lt;''"
proof -
  have h1: "hunk_sections_of (splitlines ''@@ bad\<newline>+x'') = [(''@@ bad'', [''+x''])]" by code_simp
  have h2: "hunk_sections_of (splitlines ''index 1'') = []" by code_simp
  have r: "re_search_header ''@@ bad'' = None" by code_simp
  have a1: "list_all (\<lambda>(h, b). re_search_header h = None)
      (hunk_sections_of (splitlines (case Some ''@@ bad\<newline>+x'' of None \<Rightarrow> [] | Some p \<Rightarrow> p)))"
    by (simp add: h1 r)
  have a2: "list_all (\<lambda>(h, b). re_search_header h = None)
      (hunk_sections_of (splitlines (case Some ''index 1'' of None \<Rightarrow> [] | Some p \<Rightarrow> p)))"
    by (simp add: h2)
  have s: "splitlines ''a\<newline>b<'' = [''a'', ''b<'']" by code_simp
  have e: "html_escape ''a\<newline>b<'' = ''a\<newline>b&lt;''" "html_escape ''a'' = ''a''" "html_escape ''b<'' = ''b&lt;''"
    by code_simp+
  show ?thesis
    using zero_hunks_identity[OF a1, of "Some ''a\<newline>b<''" None]
          zero_hunks_identity[OF a2, of "Some ''a\<newline>b<''" None] a1
    by (simp add: h1 h2 s e)
qed

subsection \<open>The hunk parser\<close>

lemma flat_sections_append: "flat_sections (xs @ ys) = flat_sections xs @ flat_sections ys"
  by (simp add: flat_sections_def)

lemma scan_line_inv: "scan_inv st \<Longrightarrow> scan_inv (scan_line st l)"
  by (cases st) (auto simp: scan_inv_def scan_line_def split: option.splits)

lemma scan_line_header:
  "is_header_line l \<Longrightarrow> scan_inv st \<Longrightarrow>
   flat_sections (close_hunk (scan_line st l)) = flat_sections (close_hunk st) @ [l]"
  by (cases st)
     (auto simp: scan_inv_def scan_line_def is_header_line_def close_hunk_def flat_sections_def
           split: option.splits)

lemma scan_line_open_body:
  "\<not> is_header_line l \<Longrightarrow> scan_inv st \<Longrightarrow> fst (snd st) \<noteq> None \<Longrightarrow>
   flat_sections (close_hunk (scan_line st l)) =
     flat_sections (close_hunk st) @ (if is_body_line l then [l] else [])
   \<and> fst (snd (scan_line st l)) \<noteq> None"
  by (cases st)
     (auto simp: scan_inv_def scan_line_def is_header_line_def close_hunk_def flat_sections_def
           split: option.splits)

lemma scan_line_closed:
  "\<not> is_header_line l \<Longrightarrow> scan_inv st \<Longrightarrow> fst (snd st) = None \<Longrightarrow> scan_line st l = st"
  by (cases st) (auto simp: scan_inv_def scan_line_def is_header_line_def split: option.splits)

lemma scan_line_header_open: "is_header_line l \<Longrightarrow> fst (snd (scan_line st l)) \<noteq> None"
  by (cases st) (auto simp: scan_line_def is_header_line_def)

lemma foldl_scan_open:
  "scan_inv st \<Longrightarrow> fst (snd st) \<noteq> None \<Longrightarrow>
   flat_sections (close_hunk (foldl scan_line st ls)) =
     flat_sections (close_hunk st) @ filter (\<lambda>l. is_header_line l \<or> is_body_line l) ls"
proof (induction ls arbitrary: st)
  case Nil
  then show ?case by simp
next
  case (Cons l ls)
  show ?case
  proof (cases "is_header_line l")
    case True
    from Cons.IH[OF scan_line_inv[OF Cons.prems(1)] scan_line_header_open[OF True]]
    show ?thesis using True scan_line_header[OF True Cons.prems(1)] by simp
  next
    case False
    from scan_line_open_body[OF False Cons.prems]
    have a: "flat_sections (close_hunk (scan_line st l)) =
               flat_sections (close_hunk st) @ (if is_body_line l then [l] else [])"
      and b: "fst (snd (scan_line st l)) \<noteq> None" by simp_all
    from Cons.IH[OF scan_line_inv[OF Cons.prems(1)] b]
    show ?thesis using False a by simp
  qed
qed

lemma foldl_scan_closed:
  "scan_inv st \<Longrightarrow> fst (snd st) = None \<Longrightarrow>
   flat_sections (close_hunk (foldl scan_line st ls)) =
     flat_sections (close_hunk st) @
     filter (\<lambda>l. is_header_line l \<or> is_body_line l) (dropWhile (\<lambda>l. \<not> is_header_line l) ls)"
proof (induction ls arbitrary: st)
  case Nil
  then show ?case by simp
next
  case (Cons l ls)
  show ?case
  proof (cases "is_header_line l")
    case True
    from foldl_scan_open[OF scan_line_inv[OF Cons.prems(1)] scan_line_header_open[OF True], of ls]
    show ?thesis using True scan_line_header[OF True Cons.prems(1)] by simp
  next
    case False
    then show ?thesis using Cons scan_line_closed[OF False Cons.prems] by simp
  qed
qed

lemma hunk_sections_flat:
  "flat_sections (hunk_sections_of ls) =
     filter (\<lambda>l. is_header_line l \<or> is_body_line l) (dropWhile (\<lambda>l. \<not> is_header_line l) ls)"
  using foldl_scan_closed[of "([], None, None)" ls]
  by (simp add: hunk_sections_of_def scan_inv_def close_hunk_def flat_sections_def)

text \<open>Every section has a header line that starts with \<open>@@\<close> and a body of body lines.\<close>

lemma scan_line_shape: "scan_shape st \<Longrightarrow> scan_shape (scan_line st l)"
  by (cases st)
     (auto simp: scan_shape_def scan_line_def close_hunk_def section_ok_def is_header_line_def
           split: option.splits)

lemma foldl_scan_shape: "scan_shape st \<Longrightarrow> scan_shape (foldl scan_line st ls)"
  by (induction ls arbitrary: st) (simp_all add: scan_line_shape)

lemma close_hunk_shape: "scan_shape st \<Longrightarrow> list_all section_ok (close_hunk st)"
  by (cases st) (auto simp: scan_shape_def close_hunk_def section_ok_def split: option.splits)

lemma hunk_sections_shape: "list_all section_ok (hunk_sections_of ls)"
  unfolding hunk_sections_of_def
  by (rule close_hunk_shape, rule foldl_scan_shape) (simp add: scan_shape_def)

text \<open>The scans of the two functions produce the same sections.\<close>

lemma header_truthy: "is_header_line h \<Longrightarrow> str_truthy (Some h)"
  by (auto simp: is_header_line_def startswith_def str_truthy_def)

lemma header_nonempty: "is_header_line h \<Longrightarrow> h \<noteq> []"
  by (auto simp: is_header_line_def startswith_def)

lemma close_rel: "scan_rel st mst \<Longrightarrow> merge_close_hunk mst = close_hunk st"
  by (cases st; cases mst)
     (auto simp: scan_rel_def merge_close_hunk_def close_hunk_def str_truthy_def
           split: option.splits dest: header_nonempty)

lemma scan_line_rel:
  assumes "scan_rel st mst"
  shows "scan_rel (scan_line st l) (merge_scan_line mst l)"
proof -
  obtain secs hdr body where st: "st = (secs, hdr, body)" by (cases st)
  obtain msecs mhdr mbody where mst: "mst = (msecs, mhdr, mbody)" by (cases mst)
  show ?thesis
  proof (cases "startswith l ''@@''")
    case True
    then show ?thesis using close_rel[OF assms]
      by (simp add: st mst scan_line_def merge_scan_line_def scan_rel_def is_header_line_def)
  next
    case False
    then show ?thesis using assms
      by (auto simp: st mst scan_line_def merge_scan_line_def scan_rel_def str_truthy_def
               split: option.splits dest: header_nonempty)
  qed
qed

lemma foldl_scan_rel:
  "scan_rel st mst \<Longrightarrow> scan_rel (foldl scan_line st ls) (foldl merge_scan_line mst ls)"
  by (induction ls arbitrary: st mst) (simp_all add: scan_line_rel)

lemma merge_hunk_sections_eq: "merge_hunk_sections_of ls = hunk_sections_of ls"
  unfolding merge_hunk_sections_of_def hunk_sections_of_def
  by (rule close_rel, rule foldl_scan_rel) (simp add: scan_rel_def)

text \<open>Sections whose header does not match are skipped by both loops.\<close>

lemma apply_hunks_filter:
  "apply_hunks base_lines ann (filter header_matches hs) st = apply_hunks base_lines ann hs st"
proof (induction hs arbitrary: st)
  case Nil
  then show ?case by simp
next
  case (Cons h hs)
  obtain header body where h: "h = (header, body)" by (cases h)
  show ?case
  proof (cases "re_search_header header")
    case None
    then have "\<not> header_matches h" by (simp add: h header_matches_def)
    then show ?thesis using None by (simp add: Cons.IH) (simp add: h)
  next
    case (Some mt)
    then have hm: "header_matches h" by (simp add: h header_matches_def)
    show ?thesis
    proof (cases "old_start mt")
      case (Inl err)
      then show ?thesis using hm Some by (simp add: h)
    next
      case (Inr os)
      then show ?thesis using hm Some
        by (cases "position_cursor base_lines os st") (simp_all add: h Cons.IH)
    qed
  qed
qed

lemma merge_hunk_unmatched: "\<not> header_matches hs \<Longrightarrow> merge_hunk details m hs = Inr m"
  by (cases hs) (simp add: merge_hunk_def header_matches_def)

lemma merge_hunks_filter:
  "merge_hunks details m (filter header_matches hs) = merge_hunks details m hs"
proof (induction hs arbitrary: m)
  case Nil
  then show ?case by simp
next
  case (Cons h hs)
  show ?case
  proof (cases "header_matches h")
    case False
    then show ?thesis by (simp add: merge_hunk_unmatched Cons.IH)
  next
    case True
    then show ?thesis by (cases "merge_hunk details m h") (simp_all add: Cons.IH)
  qed
qed

text \<open>Within the limit on the digits of \<open>old_start\<close> the loop of the merge returns.\<close>

lemma merge_hunk_in_limit:
  "header_in_limit hs \<Longrightarrow> \<exists>m'. merge_hunk details m hs = Inr m'"
  by (cases hs)
     (auto simp: merge_hunk_def header_in_limit_def old_start_cases split: option.splits)

lemma merge_hunks_in_limit:
  "list_all header_in_limit hs \<Longrightarrow> \<exists>m'. merge_hunks details m hs = Inr m'"
proof (induction hs arbitrary: m)
  case Nil
  then show ?case by simp
next
  case (Cons h hs)
  then obtain m1 where "merge_hunk details m h = Inr m1"
    using merge_hunk_in_limit[of h details m] by auto
  then show ?case using Cons by simp
qed

text \<open>
  C5 (as amended): the scan of the patch lines is a total function without an error
  result.  For every list of patch lines, the sections listed line by line are the header
  and body lines of the text from its first \<open>@@\<close> line on, in text order; every section is
  a header line followed by body lines; both functions split the text the same way; and a
  section whose header does not match the pattern contributes nothing, the loops going on
  with the sections after it: running a loop over all sections is running it over the
  matching ones.  When no matching header has an \<open>old_start\<close> of more than 4300 digits,
  neither the reconstruction of the lines nor the loop of the merge raises.
\<close>

theorem unmatched_headers_dropped:
  "flat_sections (hunk_sections_of ls) =
     filter (\<lambda>l. is_header_line l \<or> is_body_line l) (dropWhile (\<lambda>l. \<not> is_header_line l) ls)
   \<and> list_all section_ok (hunk_sections_of ls)
   \<and> merge_hunk_sections_of ls = hunk_sections_of ls
   \<and> apply_hunks base_lines ann (hunk_sections_of ls) st =
       apply_hunks base_lines ann (filter header_matches (hunk_sections_of ls)) st
   \<and> merge_hunks details m (merge_hunk_sections_of ls) =
       merge_hunks details m (filter header_matches (merge_hunk_sections_of ls))
   \<and> (list_all header_in_limit (hunk_sections_of ls) \<longrightarrow>
        (\<exists>res. patched_lines base_lines ann (hunk_sections_of ls) = Inr res) \<and>
        (\<exists>m'. merge_hunks details m (merge_hunk_sections_of ls) = Inr m'))"
proof -
  have "\<exists>res. patched_lines base_lines ann (hunk_sections_of ls) = Inr res"
    if "list_all header_in_limit (hunk_sections_of ls)"
    using patched_lines_result[of "hunk_sections_of ls" base_lines ann] that by simp
  then show ?thesis
    by (simp add: hunk_sections_flat hunk_sections_shape merge_hunk_sections_eq
          apply_hunks_filter merge_hunks_filter merge_hunks_in_limit)
qed

theorem unmatched_headers_dropped_witness:
  "list_all header_in_limit
     (hunk_sections_of [''diff'', ''@@ bad @@'', ''+lost'', ''@@ -1 +1,2 @@'', '' a'', ''junk'', ''+x''])
   \<and> hunk_sections_of [''diff'', ''@@ bad @@'', ''+lost'', ''@@ -1 +1,2 @@'', '' a'', ''junk'', ''+x''] =
     [(''@@ bad @@'', [''+lost'']), (''@@ -1 +1,2 @@'', ['' a'', ''+x''])]
   \<and> filter header_matches
        (hunk_sections_of [''diff'', ''@@ bad @@'', ''+lost'', ''@@ -1 +1,2 @@'', '' a'', ''junk'', ''+x'']) =
     [(''@@ -1 +1,2 @@'', ['' a'', ''+x''])]
   \<and> apply_hunks [''a''] None
        (hunk_sections_of [''diff'', ''@@ bad @@'', ''+lost'', ''@@ -1 +1,2 @@'', '' a'', ''junk'', ''+x'']) (0, []) =
     apply_hunks [''a''] None [(''@@ -1 +1,2 @@'', ['' a'', ''+x''])] (0, [])
   \<and> (\<exists>res. patched_lines [''a''] None
        (hunk_sections_of [''diff'', ''@@ bad @@'', ''+lost'', ''@@ -1 +1,2 @@'', '' a'', ''junk'', ''+x'']) =
        Inr res)"
proof -
  let ?ls = "[''diff'', ''@@ bad @@'', ''+lost'', ''@@ -1 +1,2 @@'', '' a'', ''junk'', ''+x'']"
  have h: "hunk_sections_of ?ls = [(''@@ bad @@'', [''+lost'']), (''@@ -1 +1,2 @@'', ['' a'', ''+x''])]"
    by code_simp
  have f: "filter header_matches [(''@@ bad @@'', [''+lost'']), (''@@ -1 +1,2 @@'', ['' a'', ''+x''])] =
      [(''@@ -1 +1,2 @@'', ['' a'', ''+x''])]"
    by code_simp
  have l: "list_all header_in_limit [(''@@ bad @@'', [''+lost'']), (''@@ -1 +1,2 @@'', ['' a'', ''+x''])]"
    by code_simp
  have lim: "list_all header_in_limit (hunk_sections_of ?ls)"
    by (simp only: h l)
  have "apply_hunks [''a''] None (hunk_sections_of ?ls) (0, []) =
        apply_hunks [''a''] None (filter header_matches (hunk_sections_of ?ls)) (0, [])"
    and "\<exists>res. patched_lines [''a''] None (hunk_sections_of ?ls) = Inr res"
    using unmatched_headers_dropped[where ls = ?ls and base_lines = "[''a'']" and ann = None and st = "(0, [])"]
      lim
    by blast+
  then show ?thesis
    using lim by (simp only: h f simp_thms)
qed

text \<open>A header with a long run of digits: the pattern matches it at its first position.\<close>

lemma takeWhile_digits:
  "list_all is_digit ds \<Longrightarrow> \<not> is_digit c \<Longrightarrow>
   takeWhile is_digit (ds @ c # r) = ds \<and> dropWhile is_digit (ds @ c # r) = c # r"
  by (induction ds) simp_all

lemma long_header_match:
  assumes "list_all is_digit ds" "ds \<noteq> []"
  shows "re_search_header (''@@ -'' @ ds @ '' +1 @@'') =
           Some \<lparr>group1 = ds, group3 = None, group4 = ''1'', group6 = None\<rparr>"
proof -
  have sp: "\<not> is_digit CHR '' ''" by (simp add: is_digit_def)
  have d: "match_digits (ds @ '' +1 @@'') = Some (ds, '' +1 @@'')"
    using takeWhile_digits[OF assms(1) sp, of "''+1 @@''"] assms(2)
    by (simp add: match_digits_def)
  have d1: "match_digits ''1 @@'' = Some (''1'', '' @@'')"
    by (simp add: match_digits_def is_digit_def)
  have "match_header_at (''@@ -'' @ ds @ '' +1 @@'') =
          Some \<lparr>group1 = ds, group3 = None, group4 = ''1'', group6 = None\<rparr>"
    by (simp add: match_header_at_def match_literal_def startswith_def d d1 match_opt_count_def)
  then show ?thesis
    by (simp add: re_search_header.simps)
qed

lemma ones_digits: "list_all is_digit (replicate n (CHR ''1''))"
  by (simp add: list_all_iff is_digit_def)

text \<open>
  C5 as stated fails on a header whose \<open>old_start\<close> has 4301 digits: the pattern matches,
  and \<open>int\<close> raises \<open>ValueError\<close> in both functions.
\<close>

theorem long_header_number_raises_counterexample:
  "apply_patch_to_content (Some ''a'')
     (Some (''@@ -'' @ replicate 4301 (CHR ''1'') @ '' +1 @@'')) None = Inl ValueError
   \<and> generate_interleaved_lines_for_all_prs (Some ''a'')
       [(''1'', \<lparr>pd_patch = Some (''@@ -'' @ replicate 4301 (CHR ''1'') @ '' +1 @@''),
                 pd_title = None, pd_html_url = None, pd_local_pr_page_link = None\<rparr>)] =
     Inl ValueError"
proof -
  define ds where "ds = replicate 4301 (CHR ''1'')"
  define h where "h = ''@@ -'' @ ds @ '' +1 @@''"
  have dl: "list_all is_digit ds" "ds \<noteq> []" "length ds = 4301"
    by (simp_all add: ds_def ones_digits)
  have m: "re_search_header h = Some \<lparr>group1 = ds, group3 = None, group4 = ''1'', group6 = None\<rparr>"
    unfolding h_def by (rule long_header_match[OF dl(1,2)])
  have o: "old_start \<lparr>group1 = ds, group3 = None, group4 = ''1'', group6 = None\<rparr> = Inl ValueError"
    by (simp add: old_start_cases int_max_str_digits_def dl(3))
  have nb: "\<forall>x\<in>set h. \<not> is_linebreak x"
    by (auto simp: h_def ds_def is_linebreak_def)
  have ne: "h \<noteq> []" by (simp add: h_def)
  have "splitlines_from [] (h @ []) = splitlines_from ([] @ h) []"
    by (rule splitlines_from_plain_prefix[OF nb])
  then have sp: "splitlines h = [h]"
    using ne by (simp add: splitlines_def)
  have sw: "startswith h ''@@''" by (simp add: h_def startswith_def)
  have hs: "hunk_sections_of [h] = [(h, [])]"
    by (simp add: hunk_sections_of_def scan_line_def close_hunk_def sw)
  have "patched_lines (splitlines ''a'') None [(h, [])] = Inl ValueError"
    by (simp add: patched_lines_def m o)
  then have a: "apply_patch_to_content (Some ''a'') (Some h) None = Inl ValueError"
    using ne by (simp add: apply_patch_to_content_def sp hs)
  have mh: "merge_hunks details mp (merge_hunk_sections_of (splitlines h)) = Inl ValueError"
    for details mp
    by (simp add: sp merge_hunk_sections_eq hs merge_hunk_def m o)
  have k: "py_int ''1'' = Some 1" by code_simp
  have so: "sorted_pr_numbers
      [(''1'', \<lparr>pd_patch = Some h, pd_title = None, pd_html_url = None,
                pd_local_pr_page_link = None\<rparr>)] = Inr [''1'']"
    by (simp add: sorted_pr_numbers_def k)
  have b: "generate_interleaved_lines_for_all_prs (Some ''a'')
      [(''1'', \<lparr>pd_patch = Some h, pd_title = None, pd_html_url = None,
                pd_local_pr_page_link = None\<rparr>)] = Inl ValueError"
    using ne by (simp add: generate_interleaved_lines_for_all_prs_def so merge_pr_def mh)
  from a b show ?thesis unfolding h_def ds_def by simp
qed

subsection \<open>The merge in terms of its insertions\<close>

lemma add_pairs_Nil: "add_pairs m [] = m"
  by (simp add: add_pairs_def)

lemma add_pairs_Cons: "add_pairs m (p # ps) = add_pairs (add_line m (fst p) (snd p)) ps"
  by (simp add: add_pairs_def)

lemma add_pairs_append: "add_pairs m (ps @ qs) = add_pairs (add_pairs m ps) qs"
  by (simp add: add_pairs_def)

lemma lookup_add_line:
  "lookup_additions (add_line m k obj) k' =
     lookup_additions m k' @ (if k' = k then [obj] else [])"
  by (simp add: add_line_def lookup_additions_def Let_def)

lemma lookup_add_pairs:
  "lookup_additions (add_pairs m ps) k = lookup_additions m k @ at_key ps k"
  by (induction ps arbitrary: m) (auto simp: add_pairs_Nil add_pairs_Cons lookup_add_line at_key_def)

lemma lookup_empty: "lookup_additions Map.empty k = []"
  by (simp add: lookup_additions_def)

lemma foldl_merge_body:
  "fst (foldl (merge_body_step details target) (m, off) body) =
     add_pairs m (body_pairs details target off body)"
  by (induction body arbitrary: m off)
     (auto simp: merge_body_step_def add_pairs_Nil add_pairs_Cons)

lemma merge_hunk_pairs:
  "merge_hunk details m hs =
     (if header_in_limit hs then Inr (add_pairs m (hunk_pairs details hs)) else Inl ValueError)"
  by (cases hs)
     (simp add: merge_hunk_def hunk_pairs_def header_in_limit_def old_start_cases
        foldl_merge_body add_pairs_Nil split: option.splits)

lemma merge_hunks_pairs:
  "merge_hunks details m hss =
     (if list_all header_in_limit hss
      then Inr (add_pairs m (concat (map (hunk_pairs details) hss)))
      else Inl ValueError)"
  by (induction hss arbitrary: m) (simp_all add: add_pairs_Nil merge_hunk_pairs add_pairs_append)

lemma merge_pr_pairs:
  "map_of prs k = Some d \<Longrightarrow>
   merge_pr prs m k =
     (if pr_in_limit d then Inr (add_pairs m (pr_pairs prs k)) else Inl ValueError)"
  by (auto simp: merge_pr_def pr_pairs_def pr_in_limit_def merge_hunks_pairs add_pairs_Nil)

lemma merge_prs_pairs:
  "set keys \<subseteq> fst ` set prs \<Longrightarrow>
   merge_prs prs m keys =
     (if list_all (\<lambda>k. pr_in_limit (the (map_of prs k))) keys
      then Inr (add_pairs m (concat (map (pr_pairs prs) keys)))
      else Inl ValueError)"
proof (induction keys arbitrary: m)
  case Nil
  then show ?case by (simp add: add_pairs_Nil)
next
  case (Cons k keys)
  then have "k \<in> fst ` set prs" by simp
  then obtain d where d: "map_of prs k = Some d"
    by (metis domD dom_map_of_conv_image_fst)
  show ?case using Cons by (simp add: merge_pr_pairs[OF d] d add_pairs_append)
qed

lemma final_lines_pairs: "final_lines base_lines (add_pairs Map.empty ps) = interleave base_lines ps"
  by (simp add: final_lines_def interleave_def lookup_add_pairs lookup_empty)

lemma set_key_order: "set (key_order prs) = fst ` set prs"
  by (simp add: key_order_def)

lemma generate_result:
  "generate_interleaved_lines_for_all_prs base_content_str prs =
     (if keys_numeric prs \<and> prs_in_limit prs
      then Inr (interleave (splitlines (case base_content_str of None \<Rightarrow> [] | Some b \<Rightarrow> b))
                  (all_pairs prs))
      else Inl ValueError)"
proof -
  have sub: "set (key_order prs) \<subseteq> fst ` set prs" by (simp add: set_key_order)
  have lim: "list_all (\<lambda>k. pr_in_limit (the (map_of prs k))) (key_order prs) = prs_in_limit prs"
    by (simp add: prs_in_limit_def list_all_iff set_key_order)
  show ?thesis
    using merge_prs_pairs[OF sub, of Map.empty]
    by (simp add: generate_interleaved_lines_for_all_prs_def sorted_pr_numbers_def keys_numeric_def
          key_order_def[symmetric] all_pairs_def final_lines_pairs lim)
qed

lemma generate_pairs:
  "keys_numeric prs \<Longrightarrow> prs_in_limit prs \<Longrightarrow>
   generate_interleaved_lines_for_all_prs base_content_str prs =
     Inr (interleave (splitlines (case base_content_str of None \<Rightarrow> [] | Some b \<Rightarrow> b)) (all_pairs prs))"
  by (simp add: generate_result)

lemma generate_returns_iff:
  "generate_interleaved_lines_for_all_prs base_content_str prs = Inr out \<longleftrightarrow>
   keys_numeric prs \<and> prs_in_limit prs \<and>
   out = interleave (splitlines (case base_content_str of None \<Rightarrow> [] | Some b \<Rightarrow> b)) (all_pairs prs)"
  by (auto simp: generate_result)

text \<open>Every inserted object has type \<open>added\<close>, so the base objects of the output are the base lines.\<close>

lemma body_pairs_added: "p \<in> set (body_pairs details target off body) \<Longrightarrow> obj_type (snd p) = ''added''"
  by (induction body arbitrary: off) (auto simp: added_obj_def split: if_splits)

lemma hunk_pairs_added: "p \<in> set (hunk_pairs details hs) \<Longrightarrow> obj_type (snd p) = ''added''"
  by (auto simp: hunk_pairs_def body_pairs_added split: option.splits)

lemma pr_pairs_added: "p \<in> set (pr_pairs prs k) \<Longrightarrow> obj_type (snd p) = ''added''"
  by (auto simp: pr_pairs_def hunk_pairs_added split: option.splits if_splits)

lemma all_pairs_added: "p \<in> set (all_pairs prs) \<Longrightarrow> obj_type (snd p) = ''added''"
  by (auto simp: all_pairs_def pr_pairs_added)

lemma at_key_no_base:
  "(\<And>p. p \<in> set ps \<Longrightarrow> obj_type (snd p) = ''added'') \<Longrightarrow>
   filter (\<lambda>obj. obj_type obj = ''base'') (at_key ps k) = []"
  by (auto simp: at_key_def filter_empty_conv)

lemma filter_base_interleave_aux:
  assumes "\<And>k. filter (\<lambda>obj. obj_type obj = ''base'') (f k) = []"
  shows "filter (\<lambda>obj. obj_type obj = ''base'')
           (concat (map (\<lambda>(i, l). base_obj l # f (int i)) (enumerate n base_lines))) =
         map base_obj base_lines"
  by (induction base_lines arbitrary: n) (simp_all add: assms base_obj_def)

lemma interleave_base_lines:
  assumes "\<And>p. p \<in> set ps \<Longrightarrow> obj_type (snd p) = ''added''"
  shows "filter (\<lambda>obj. obj_type obj = ''base'') (interleave base_lines ps) = map base_obj base_lines"
  unfolding interleave_def
  by (simp add: at_key_no_base[OF assms] filter_base_interleave_aux)

text \<open>
  C8 (as amended): whenever the merge returns (no key on which \<open>int\<close> raises, no header
  number of more than 4300 digits; \<open>generate_returns_iff\<close>), the objects of type \<open>base\<close> in
  its output are exactly the base lines, each once and in their original order, with the
  escaped text of the line and no change-set attached.
\<close>

theorem base_lines_once_in_order:
  assumes "generate_interleaved_lines_for_all_prs base_content_str prs = Inr out"
  shows "filter (\<lambda>obj. obj_type obj = ''base'') out =
           map (\<lambda>line. \<lparr>obj_text = html_escape line, obj_type = ''base'', obj_pr_info = None\<rparr>)
             (splitlines (case base_content_str of None \<Rightarrow> [] | Some b \<Rightarrow> b))"
proof -
  from assms have "out = interleave (splitlines (case base_content_str of None \<Rightarrow> [] | Some b \<Rightarrow> b))
      (all_pairs prs)"
    by (simp add: generate_returns_iff)
  moreover have "base_obj = (\<lambda>line. \<lparr>obj_text = html_escape line, obj_type = ''base'', obj_pr_info = None\<rparr>)"
    by (rule ext) (simp add: base_obj_def)
  ultimately show ?thesis
    by (simp add: interleave_base_lines all_pairs_added)
qed

theorem base_lines_once_in_order_witness:
  "generate_interleaved_lines_for_all_prs (Some ''x<\<newline>y'')
     [(''7'', \<lparr>pd_patch = Some ''@@ -1 +1,2 @@\<newline>+p\<newline> x<'', pd_title = None,
               pd_html_url = None, pd_local_pr_page_link = None\<rparr>)] =
   Inr [\<lparr>obj_text = ''x&lt;'', obj_type = ''base'', obj_pr_info = None\<rparr>,
        \<lparr>obj_text = ''p'', obj_type = ''added'',
         obj_pr_info = Some \<lparr>number = ''7'', title = ''Unknown PR'', html_url = ''#'',
                              local_pr_page_link = ''#''\<rparr>\<rparr>,
        \<lparr>obj_text = ''y'', obj_type = ''base'', obj_pr_info = None\<rparr>]
   \<and> filter (\<lambda>obj. obj_type obj = ''base'')
       [\<lparr>obj_text = ''x&lt;'', obj_type = ''base'', obj_pr_info = None\<rparr>,
        \<lparr>obj_text = ''p'', obj_type = ''added'',
         obj_pr_info = Some \<lparr>number = ''7'', title = ''Unknown PR'', html_url = ''#'',
                              local_pr_page_link = ''#''\<rparr>\<rparr>,
        \<lparr>obj_text = ''y'', obj_type = ''base'', obj_pr_info = None\<rparr>] =
     map (\<lambda>line. \<lparr>obj_text = html_escape line, obj_type = ''base'', obj_pr_info = None\<rparr>)
       (splitlines ''x<\<newline>y'')
   \<and> map html_escape (splitlines ''x<\<newline>y'') = [''x&lt;'', ''y'']"
proof -
  have g: "generate_interleaved_lines_for_all_prs (Some ''x<\<newline>y'')
     [(''7'', \<lparr>pd_patch = Some ''@@ -1 +1,2 @@\<newline>+p\<newline> x<'', pd_title = None,
               pd_html_url = None, pd_local_pr_page_link = None\<rparr>)] =
   Inr [\<lparr>obj_text = ''x&lt;'', obj_type = ''base'', obj_pr_info = None\<rparr>,
        \<lparr>obj_text = ''p'', obj_type = ''added'',
         obj_pr_info = Some \<lparr>number = ''7'', title = ''Unknown PR'', html_url = ''#'',
                              local_pr_page_link = ''#''\<rparr>\<rparr>,
        \<lparr>obj_text = ''y'', obj_type = ''base'', obj_pr_info = None\<rparr>]"
    by code_simp
  have e: "map html_escape (splitlines ''x<\<newline>y'') = [''x&lt;'', ''y'']"
    by code_simp
  from base_lines_once_in_order[OF g] g e show ?thesis
    by (simp only: option.case simp_thms)
qed

text \<open>
  C8 as stated fails on a mapping with a key that is not a number: \<open>int\<close> raises at line
  690 and there is no merged output in which the base line could appear.
\<close>

theorem non_numeric_key_counterexample:
  "generate_interleaved_lines_for_all_prs (Some ''x'')
     [(''abc'', \<lparr>pd_patch = Some ''@@ -1 +1,2 @@\<newline> x\<newline>+p'', pd_title = None,
                 pd_html_url = None, pd_local_pr_page_link = None\<rparr>)] = Inl ValueError"
  by code_simp

subsection \<open>Insertions before the first base line\<close>

lemma body_pairs_first_added:
  assumes "n < length body" "startswith (body ! n) ''+''"
      and "\<forall>j<n. \<not> startswith (body ! j) ''-'' \<and> \<not> startswith (body ! j) '' ''"
  shows "(target + off, added_obj details (body ! n)) \<in> set (body_pairs details target off body)"
  using assms
proof (induction body arbitrary: n)
  case Nil
  then show ?case by simp
next
  case (Cons l ls)
  show ?case
  proof (cases n)
    case 0
    then show ?thesis using Cons.prems by simp
  next
    case (Suc n')
    have l: "\<not> startswith l ''-''" "\<not> startswith l '' ''"
      using Cons.prems(3) Suc by auto
    have "(target + off, added_obj details (ls ! n')) \<in> set (body_pairs details target off ls)"
    proof (rule Cons.IH)
      show "n' < length ls" using Cons.prems(1) Suc by simp
      show "startswith (ls ! n') ''+''" using Cons.prems(2) Suc by simp
      show "\<forall>j<n'. \<not> startswith (ls ! j) ''-'' \<and> \<not> startswith (ls ! j) '' ''"
        using Cons.prems(3) Suc by auto
    qed
    then show ?thesis using l Suc by simp
  qed
qed

lemma at_key_prefix_of_interleave:
  assumes "obj \<in> set (at_key ps (- 1))"
      and "\<And>p. p \<in> set ps \<Longrightarrow> obj_type (snd p) = ''added''"
  shows "\<exists>i<length (interleave base_lines ps). interleave base_lines ps ! i = obj \<and>
           (\<forall>j<length (interleave base_lines ps).
              obj_type (interleave base_lines ps ! j) = ''base'' \<longrightarrow> i < j)"
proof -
  let ?pre = "at_key ps (- 1)"
  obtain rest where out: "interleave base_lines ps = ?pre @ rest"
    by (simp add: interleave_def)
  from assms(1) obtain i where i: "i < length ?pre" "?pre ! i = obj"
    by (auto simp: in_set_conv_nth)
  have added: "obj_type x = ''added''" if "x \<in> set ?pre" for x
    using that assms(2) by (auto simp: at_key_def)
  have "i < j" if j: "j < length (?pre @ rest)" "obj_type ((?pre @ rest) ! j) = ''base''" for j
  proof (rule ccontr)
    assume "\<not> i < j"
    then have jl: "j < length ?pre" using i(1) by simp
    then have "obj_type (?pre ! j) = ''added''" by (intro added) simp
    then show False using j(2) jl by (simp add: nth_append)
  qed
  then show ?thesis unfolding out using i by (auto simp: nth_append)
qed

text \<open>
  C2 (as amended): on a mapping on which the merge does not raise, an added line of a
  hunk with \<open>old_start = 0\<close> that no removed or context line precedes in the hunk's body has
  insertion key \<open>-1\<close>, and it stands in the output before every base line.
\<close>

theorem sentinel_added_before_base:
  assumes "keys_numeric prs" and "prs_in_limit prs"
      and "map_of prs k = Some d" and "pd_patch d = Some p" and "p \<noteq> []"
      and "(header, body) \<in> set (merge_hunk_sections_of (splitlines p))"
      and "re_search_header header = Some mt" and "old_start mt = Inr 0"
      and "n < length body" and "startswith (body ! n) ''+''"
      and "\<forall>j<n. \<not> startswith (body ! j) ''-'' \<and> \<not> startswith (body ! j) '' ''"
  shows "\<exists>out i. generate_interleaved_lines_for_all_prs base_content_str prs = Inr out \<and>
           i < length out \<and> out ! i = added_obj (make_pr_details k d) (body ! n) \<and>
           (\<forall>j<length out. obj_type (out ! j) = ''base'' \<longrightarrow> i < j)"
proof -
  let ?obj = "added_obj (make_pr_details k d) (body ! n)"
  let ?base = "splitlines (case base_content_str of None \<Rightarrow> [] | Some b \<Rightarrow> b)"
  have z: "digits_to_int (group1 mt) = 0"
    using assms(8) by (simp add: old_start_cases split: if_splits)
  have "(target_of 0 + 0, ?obj) \<in> set (body_pairs (make_pr_details k d) (target_of 0) 0 body)"
    by (rule body_pairs_first_added) (use assms in auto)
  then have "(- 1, ?obj) \<in> set (hunk_pairs (make_pr_details k d) (header, body))"
    using assms(7) z by (simp add: hunk_pairs_def target_of_def)
  then have "(- 1, ?obj) \<in> set (pr_pairs prs k)"
    using assms(3,4,5,6) by (auto simp: pr_pairs_def)
  moreover have "k \<in> set (key_order prs)"
    using assms(3) by (simp add: set_key_order) (metis fst_conv image_eqI map_of_SomeD)
  ultimately have "(- 1, ?obj) \<in> set (all_pairs prs)"
    by (auto simp: all_pairs_def)
  then have "?obj \<in> set (at_key (all_pairs prs) (- 1))"
    by (force simp: at_key_def)
  then have "\<exists>i<length (interleave ?base (all_pairs prs)).
      interleave ?base (all_pairs prs) ! i = ?obj \<and>
      (\<forall>j<length (interleave ?base (all_pairs prs)).
         obj_type (interleave ?base (all_pairs prs) ! j) = ''base'' \<longrightarrow> i < j)"
    by (rule at_key_prefix_of_interleave) (rule all_pairs_added)
  then show ?thesis using generate_pairs[OF assms(1,2), of base_content_str] by auto
qed

theorem sentinel_added_before_base_witness:
  "keys_numeric [(''1'', \<lparr>pd_patch = Some ''@@ -0,0 +1 @@\<newline>+p'', pd_title = None,
                          pd_html_url = None, pd_local_pr_page_link = None\<rparr>)]
   \<and> prs_in_limit [(''1'', \<lparr>pd_patch = Some ''@@ -0,0 +1 @@\<newline>+p'', pd_title = None,
                          pd_html_url = None, pd_local_pr_page_link = None\<rparr>)]
   \<and> (''@@ -0,0 +1 @@'', [''+p'']) \<in> set (merge_hunk_sections_of (splitlines ''@@ -0,0 +1 @@\<newline>+p''))
   \<and> map_option old_start (re_search_header ''@@ -0,0 +1 @@'') = Some (Inr 0)
   \<and> startswith ([''+p''] ! 0) ''+''
   \<and> (\<exists>out i. generate_interleaved_lines_for_all_prs (Some ''x'')
          [(''1'', \<lparr>pd_patch = Some ''@@ -0,0 +1 @@\<newline>+p'', pd_title = None,
                    pd_html_url = None, pd_local_pr_page_link = None\<rparr>)] = Inr out \<and>
        i < length out \<and>
        out ! i = \<lparr>obj_text = ''p'', obj_type = ''added'',
                    obj_pr_info = Some \<lparr>number = ''1'', title = ''Unknown PR'', html_url = ''#'',
                                         local_pr_page_link = ''#''\<rparr>\<rparr> \<and>
        (\<forall>j<length out. obj_type (out ! j) = ''base'' \<longrightarrow> i < j))"
proof -
  let ?d = "\<lparr>pd_patch = Some ''@@ -0,0 +1 @@\<newline>+p'', pd_title = None,
             pd_html_url = None, pd_local_pr_page_link = None\<rparr>"
  let ?mt = "\<lparr>group1 = ''0'', group3 = Some ''0'', group4 = ''1'', group6 = None\<rparr>"
  have a1: "keys_numeric [(''1'', ?d)]" by code_simp
  have a1': "prs_in_limit [(''1'', ?d)]" by code_simp
  have a2: "map_of [(''1'', ?d)] ''1'' = Some ?d" by simp
  have a3: "pd_patch ?d = Some ''@@ -0,0 +1 @@\<newline>+p''" by simp
  have a4: "''@@ -0,0 +1 @@\<newline>+p'' \<noteq> []" by simp
  have hs: "merge_hunk_sections_of (splitlines ''@@ -0,0 +1 @@\<newline>+p'') = [(''@@ -0,0 +1 @@'', [''+p''])]"
    by code_simp
  have a5: "(''@@ -0,0 +1 @@'', [''+p'']) \<in> set (merge_hunk_sections_of (splitlines ''@@ -0,0 +1 @@\<newline>+p''))"
    by (simp add: hs)
  have a6: "re_search_header ''@@ -0,0 +1 @@'' = Some ?mt" by code_simp
  have a7: "old_start ?mt = Inr 0" by code_simp
  have a8: "0 < length [''+p'']" by simp
  have a9: "startswith ([''+p''] ! 0) ''+''" by (simp add: startswith_def)
  have a10: "\<forall>j<0. \<not> startswith ([''+p''] ! j) ''-'' \<and> \<not> startswith ([''+p''] ! j) '' ''" by simp
  have obj: "added_obj (make_pr_details ''1'' ?d) ([''+p''] ! 0) =
      \<lparr>obj_text = ''p'', obj_type = ''added'',
       obj_pr_info = Some \<lparr>number = ''1'', title = ''Unknown PR'', html_url = ''#'',
                            local_pr_page_link = ''#''\<rparr>\<rparr>"
    by code_simp
  show ?thesis
    using sentinel_added_before_base[OF a1 a1' a2 a3 a4 a5 a6 a7 a8 a9 a10, of "Some ''x''"] a1 a1' a5 a6 a7 a9
    unfolding obj by simp
qed

text \<open>
  C2 as stated fails when a context line precedes the added line in a hunk with
  \<open>old_start = 0\<close>: the key is \<open>-1 + 1 = 0\<close>, and the added line follows the base line.
\<close>

theorem sentinel_after_context_counterexample:
  "map_option old_start (re_search_header ''@@ -0,0 +1,2 @@'') = Some (Inr 0) \<and>
   generate_interleaved_lines_for_all_prs (Some ''a'')
     [(''1'', \<lparr>pd_patch = Some ''@@ -0,0 +1,2 @@\<newline> a\<newline>+x'', pd_title = None,
               pd_html_url = None, pd_local_pr_page_link = None\<rparr>)] =
   Inr [\<lparr>obj_text = ''a'', obj_type = ''base'', obj_pr_info = None\<rparr>,
        \<lparr>obj_text = ''x'', obj_type = ''added'',
         obj_pr_info = Some \<lparr>number = ''1'', title = ''Unknown PR'', html_url = ''#'',
                              local_pr_page_link = ''#''\<rparr>\<rparr>]"
  by code_simp

subsection \<open>Insertions at the end of the base\<close>

text \<open>
  C1 fails on the code: a patch that appends a line after the last of three base lines
  gives the key 3, which the output loop (keys \<open>-1\<close> and 0 to 2) never reads.  The merged
  output has the three base lines only, while \<open>apply_patch_to_content\<close> shows the added
  line for the same base and patch.
\<close>

theorem merge_drops_line_appended_at_end:
  \<open>generate_interleaved_lines_for_all_prs (Some ''a\<newline>b\<newline>c'')
     [(''1'', \<lparr>pd_patch = Some ''@@ -1,3 +1,4 @@\<newline> a\<newline> b\<newline> c\<newline>+d'', pd_title = None,
               pd_html_url = None, pd_local_pr_page_link = None\<rparr>)] =
   Inr [\<lparr>obj_text = ''a'', obj_type = ''base'', obj_pr_info = None\<rparr>,
        \<lparr>obj_text = ''b'', obj_type = ''base'', obj_pr_info = None\<rparr>,
        \<lparr>obj_text = ''c'', obj_type = ''base'', obj_pr_info = None\<rparr>]
   \<and> apply_patch_to_content (Some ''a\<newline>b\<newline>c'')
         (Some ''@@ -1,3 +1,4 @@\<newline> a\<newline> b\<newline> c\<newline>+d'') None =
       Inr ''a\<newline>b\<newline>c\<newline><span class="added-line">d</span>''\<close>
  by code_simp

subsection \<open>Order of the sources\<close>

lemma pr_pairs_cong: "map_of prs k = map_of prs' k \<Longrightarrow> pr_pairs prs k = pr_pairs prs' k"
  by (simp add: pr_pairs_def)

lemma source_additions_pairs:
  "map_of prs k = Some d \<Longrightarrow> pr_in_limit d \<Longrightarrow>
   source_additions k d key = at_key (pr_pairs prs k) key"
proof -
  assume a: "map_of prs k = Some d" and lim: "pr_in_limit d"
  have "pr_pairs [(k, d)] k = pr_pairs prs k"
    by (rule pr_pairs_cong) (simp add: a)
  then show ?thesis
    using lim by (simp add: source_additions_def merge_pr_pairs lookup_add_pairs lookup_empty)
qed

lemma at_key_append: "at_key (ps @ qs) k = at_key ps k @ at_key qs k"
  by (simp add: at_key_def)

lemma at_key_concat: "at_key (concat pss) k = concat (map (\<lambda>ps. at_key ps k) pss)"
proof (induction pss)
  case Nil
  then show ?case by (simp add: at_key_def)
next
  case (Cons ps pss)
  then show ?case by (simp add: at_key_append)
qed

lemma at_key_all_pairs:
  assumes "prs_in_limit prs"
  shows "at_key (all_pairs prs) key =
           concat (map (\<lambda>k. source_additions k (the (map_of prs k)) key) (key_order prs))"
proof -
  have "at_key (pr_pairs prs k) key = source_additions k (the (map_of prs k)) key"
    if "k \<in> set (key_order prs)" for k
  proof -
    from that have kin: "k \<in> fst ` set prs" by (simp add: set_key_order)
    then obtain d where d: "map_of prs k = Some d"
      by (metis domD dom_map_of_conv_image_fst)
    have "pr_in_limit (the (map_of prs k))"
      using assms kin by (auto simp: prs_in_limit_def list_all_iff)
    then show ?thesis using d by (simp add: source_additions_pairs)
  qed
  then show ?thesis
    by (simp add: all_pairs_def at_key_concat comp_def cong: map_cong)
qed

lemma key_order_sorted: "sorted (map (\<lambda>k. the (py_int k)) (key_order prs))"
  by (simp add: key_order_def)

lemma key_order_reordered:
  assumes "distinct (map fst prs)" "distinct (map fst prs')" "set prs' = set prs"
      and "inj_on (\<lambda>k. the (py_int k)) (fst ` set prs)"
  shows "key_order prs' = key_order prs"
proof -
  let ?f = "\<lambda>k. the (py_int k)"
  have s: "set (map fst prs') = set (map fst prs)" using assms(3) by simp
  have d1: "distinct (map ?f (key_order prs))"
    using assms(1,4) by (simp add: key_order_def distinct_map)
  have d2: "distinct (map ?f (key_order prs'))"
    using assms(2,3,4) by (simp add: key_order_def distinct_map)
  have "map ?f (key_order prs') = map ?f (key_order prs)"
  proof (rule sorted_distinct_set_unique)
    show "set (map ?f (key_order prs')) = set (map ?f (key_order prs))"
      using s by (simp add: key_order_def)
  qed (simp_all add: d1 d2 key_order_sorted)
  moreover have "set (key_order prs') \<union> set (key_order prs) \<subseteq> fst ` set prs"
    using assms(3) by (simp add: set_key_order)
  ultimately show ?thesis
    using assms(4) by (meson inj_on_map_eq_map inj_on_subset)
qed

lemma key_order_distinct: "distinct (map fst prs) \<Longrightarrow> distinct (key_order prs)"
  by (simp add: key_order_def)

lemma merge_reorder_invariant:
  assumes "distinct (map fst prs)" "distinct (map fst prs')" "set prs' = set prs"
      and "inj_on (\<lambda>k. the (py_int k)) (fst ` set prs)"
  shows "generate_interleaved_lines_for_all_prs base_content_str prs' =
         generate_interleaved_lines_for_all_prs base_content_str prs"
proof -
  have m: "map_of prs' = map_of prs"
    using assms(1,2,3) by (simp add: map_of_inject_set)
  have ko: "key_order prs' = key_order prs" by (rule key_order_reordered[OF assms])
  have ap: "all_pairs prs' = all_pairs prs"
    unfolding all_pairs_def ko by (rule arg_cong[where f = concat], rule map_cong) (simp_all add: pr_pairs_def m)
  have kn: "keys_numeric prs' = keys_numeric prs"
    using assms(3) by (simp add: keys_numeric_def list_all_iff)
  have pl: "prs_in_limit prs' = prs_in_limit prs"
    using assms(3) by (simp add: prs_in_limit_def list_all_iff m)
  show ?thesis
    by (simp add: generate_result kn pl ap)
qed

text \<open>
  C7 (as amended): for a mapping whose keys denote pairwise different numbers and on which
  the merge does not raise, the output is the same for every order of the mapping's
  entries; and the change-sets are taken in ascending order of their numbers: before the
  first base line and after each base line stand the insertions of the change-sets under
  that key, change-set by change-set in ascending numeric order (so all insertions of
  \<open>"1"\<close> precede all insertions of \<open>"2"\<close>, and those of \<open>"9"\<close> precede those of \<open>"10"\<close>).
\<close>

theorem merge_order_by_numeric_id:
  assumes "distinct (map fst prs)" and "distinct (map fst prs')" and "set prs' = set prs"
      and "inj_on (\<lambda>k. the (py_int k)) (fst ` set prs)"
      and "generate_interleaved_lines_for_all_prs base_content_str prs = Inr out"
  shows "generate_interleaved_lines_for_all_prs base_content_str prs' = Inr out \<and>
         (\<exists>ks. set ks = fst ` set prs \<and> distinct ks \<and> sorted (map (\<lambda>k. the (py_int k)) ks) \<and>
            out =
              concat (map (\<lambda>k. source_additions k (the (map_of prs k)) (- 1)) ks) @
              concat (map (\<lambda>(i, line).
                             \<lparr>obj_text = html_escape line, obj_type = ''base'', obj_pr_info = None\<rparr> #
                             concat (map (\<lambda>k. source_additions k (the (map_of prs k)) (int i)) ks))
                        (enumerate 0 (splitlines (case base_content_str of None \<Rightarrow> [] | Some b \<Rightarrow> b)))))"
proof -
  let ?base = "splitlines (case base_content_str of None \<Rightarrow> [] | Some b \<Rightarrow> b)"
  from assms(5) have lim: "prs_in_limit prs"
    and out: "out = interleave ?base (all_pairs prs)"
    by (simp_all add: generate_returns_iff)
  have swap: "generate_interleaved_lines_for_all_prs base_content_str prs' = Inr out"
    using merge_reorder_invariant[OF assms(1-4), of base_content_str] assms(5) by simp
  have "out =
      concat (map (\<lambda>k. source_additions k (the (map_of prs k)) (- 1)) (key_order prs)) @
      concat (map (\<lambda>(i, line).
                     \<lparr>obj_text = html_escape line, obj_type = ''base'', obj_pr_info = None\<rparr> #
                     concat (map (\<lambda>k. source_additions k (the (map_of prs k)) (int i)) (key_order prs)))
                (enumerate 0 ?base))"
    unfolding out by (simp add: interleave_def at_key_all_pairs[OF lim] base_obj_def)
  then have "\<exists>ks. set ks = fst ` set prs \<and> distinct ks \<and> sorted (map (\<lambda>k. the (py_int k)) ks) \<and>
      out =
        concat (map (\<lambda>k. source_additions k (the (map_of prs k)) (- 1)) ks) @
        concat (map (\<lambda>(i, line).
                       \<lparr>obj_text = html_escape line, obj_type = ''base'', obj_pr_info = None\<rparr> #
                       concat (map (\<lambda>k. source_additions k (the (map_of prs k)) (int i)) ks))
                  (enumerate 0 ?base))"
    using set_key_order[of prs] key_order_distinct[OF assms(1)] key_order_sorted[of prs]
    by blast
  with swap show ?thesis by blast
qed

theorem merge_order_by_numeric_id_witness:
  "inj_on (\<lambda>k. the (py_int k))
     (fst ` set [(''10'', \<lparr>pd_patch = Some ''@@ -0,0 +1 @@\<newline>+q'', pd_title = Some ''B'',
                          pd_html_url = None, pd_local_pr_page_link = None\<rparr>),
                 (''9'', \<lparr>pd_patch = Some ''@@ -0,0 +1 @@\<newline>+p'', pd_title = Some ''A'',
                          pd_html_url = None, pd_local_pr_page_link = None\<rparr>)])
   \<and> generate_interleaved_lines_for_all_prs (Some ''x'')
       [(''10'', \<lparr>pd_patch = Some ''@@ -0,0 +1 @@\<newline>+q'', pd_title = Some ''B'',
                  pd_html_url = None, pd_local_pr_page_link = None\<rparr>),
        (''9'', \<lparr>pd_patch = Some ''@@ -0,0 +1 @@\<newline>+p'', pd_title = Some ''A'',
                 pd_html_url = None, pd_local_pr_page_link = None\<rparr>)] =
     Inr [\<lparr>obj_text = ''p'', obj_type = ''added'',
           obj_pr_info = Some \<lparr>number = ''9'', title = ''A'', html_url = ''#'', local_pr_page_link = ''#''\<rparr>\<rparr>,
          \<lparr>obj_text = ''q'', obj_type = ''added'',
           obj_pr_info = Some \<lparr>number = ''10'', title = ''B'', html_url = ''#'', local_pr_page_link = ''#''\<rparr>\<rparr>,
          \<lparr>obj_text = ''x'', obj_type = ''base'', obj_pr_info = None\<rparr>]
   \<and> generate_interleaved_lines_for_all_prs (Some ''x'')
       [(''9'', \<lparr>pd_patch = Some ''@@ -0,0 +1 @@\<newline>+p'', pd_title = Some ''A'',
                 pd_html_url = None, pd_local_pr_page_link = None\<rparr>),
        (''10'', \<lparr>pd_patch = Some ''@@ -0,0 +1 @@\<newline>+q'', pd_title = Some ''B'',
                  pd_html_url = None, pd_local_pr_page_link = None\<rparr>)] =
     Inr [\<lparr>obj_text = ''p'', obj_type = ''added'',
           obj_pr_info = Some \<lparr>number = ''9'', title = ''A'', html_url = ''#'', local_pr_page_link = ''#''\<rparr>\<rparr>,
          \<lparr>obj_text = ''q'', obj_type = ''added'',
           obj_pr_info = Some \<lparr>number = ''10'', title = ''B'', html_url = ''#'', local_pr_page_link = ''#''\<rparr>\<rparr>,
          \<lparr>obj_text = ''x'', obj_type = ''base'', obj_pr_info = None\<rparr>]
   \<and> generate_interleaved_lines_for_all_prs (Some ''x'')
       [(''2'', \<lparr>pd_patch = Some ''@@ -0,0 +1 @@\<newline>+q'', pd_title = Some ''B'',
                 pd_html_url = None, pd_local_pr_page_link = None\<rparr>),
        (''1'', \<lparr>pd_patch = Some ''@@ -0,0 +1 @@\<newline>+p'', pd_title = Some ''A'',
                 pd_html_url = None, pd_local_pr_page_link = None\<rparr>)] =
     Inr [\<lparr>obj_text = ''p'', obj_type = ''added'',
           obj_pr_info = Some \<lparr>number = ''1'', title = ''A'', html_url = ''#'', local_pr_page_link = ''#''\<rparr>\<rparr>,
          \<lparr>obj_text = ''q'', obj_type = ''added'',
           obj_pr_info = Some \<lparr>number = ''2'', title = ''B'', html_url = ''#'', local_pr_page_link = ''#''\<rparr>\<rparr>,
          \<lparr>obj_text = ''x'', obj_type = ''base'', obj_pr_info = None\<rparr>]"
proof -
  let ?dp = "\<lparr>pd_patch = Some ''@@ -0,0 +1 @@\<newline>+p'', pd_title = Some ''A'',
               pd_html_url = None, pd_local_pr_page_link = None\<rparr>"
  let ?dq = "\<lparr>pd_patch = Some ''@@ -0,0 +1 @@\<newline>+q'', pd_title = Some ''B'',
               pd_html_url = None, pd_local_pr_page_link = None\<rparr>"
  have i9: "py_int ''9'' = Some 9" and i10: "py_int ''10'' = Some 10"
    and i1: "py_int ''1'' = Some 1" and i2: "py_int ''2'' = Some 2"
    by code_simp+
  have inj: "inj_on (\<lambda>k. the (py_int k)) (fst ` set [(''10'', ?dq), (''9'', ?dp)])"
    by (simp add: i9 i10)
  have inj12: "inj_on (\<lambda>k. the (py_int k)) (fst ` set [(''1'', ?dp), (''2'', ?dq)])"
    by (simp add: i1 i2)
  have g: "generate_interleaved_lines_for_all_prs (Some ''x'') [(''10'', ?dq), (''9'', ?dp)] =
     Inr [\<lparr>obj_text = ''p'', obj_type = ''added'',
           obj_pr_info = Some \<lparr>number = ''9'', title = ''A'', html_url = ''#'', local_pr_page_link = ''#''\<rparr>\<rparr>,
          \<lparr>obj_text = ''q'', obj_type = ''added'',
           obj_pr_info = Some \<lparr>number = ''10'', title = ''B'', html_url = ''#'', local_pr_page_link = ''#''\<rparr>\<rparr>,
          \<lparr>obj_text = ''x'', obj_type = ''base'', obj_pr_info = None\<rparr>]"
    by code_simp
  have g12: "generate_interleaved_lines_for_all_prs (Some ''x'') [(''1'', ?dp), (''2'', ?dq)] =
     Inr [\<lparr>obj_text = ''p'', obj_type = ''added'',
           obj_pr_info = Some \<lparr>number = ''1'', title = ''A'', html_url = ''#'', local_pr_page_link = ''#''\<rparr>\<rparr>,
          \<lparr>obj_text = ''q'', obj_type = ''added'',
           obj_pr_info = Some \<lparr>number = ''2'', title = ''B'', html_url = ''#'', local_pr_page_link = ''#''\<rparr>\<rparr>,
          \<lparr>obj_text = ''x'', obj_type = ''base'', obj_pr_info = None\<rparr>]"
    by code_simp
  have s1: "generate_interleaved_lines_for_all_prs (Some ''x'') [(''9'', ?dp), (''10'', ?dq)] =
     Inr [\<lparr>obj_text = ''p'', obj_type = ''added'',
           obj_pr_info = Some \<lparr>number = ''9'', title = ''A'', html_url = ''#'', local_pr_page_link = ''#''\<rparr>\<rparr>,
          \<lparr>obj_text = ''q'', obj_type = ''added'',
           obj_pr_info = Some \<lparr>number = ''10'', title = ''B'', html_url = ''#'', local_pr_page_link = ''#''\<rparr>\<rparr>,
          \<lparr>obj_text = ''x'', obj_type = ''base'', obj_pr_info = None\<rparr>]"
    using merge_order_by_numeric_id[OF _ _ _ inj g, of "[(''9'', ?dp), (''10'', ?dq)]"]
    by auto
  have s2: "generate_interleaved_lines_for_all_prs (Some ''x'') [(''2'', ?dq), (''1'', ?dp)] =
     Inr [\<lparr>obj_text = ''p'', obj_type = ''added'',
           obj_pr_info = Some \<lparr>number = ''1'', title = ''A'', html_url = ''#'', local_pr_page_link = ''#''\<rparr>\<rparr>,
          \<lparr>obj_text = ''q'', obj_type = ''added'',
           obj_pr_info = Some \<lparr>number = ''2'', title = ''B'', html_url = ''#'', local_pr_page_link = ''#''\<rparr>\<rparr>,
          \<lparr>obj_text = ''x'', obj_type = ''base'', obj_pr_info = None\<rparr>]"
    using merge_order_by_numeric_id[OF _ _ _ inj12 g12, of "[(''2'', ?dq), (''1'', ?dp)]"]
    by auto
  from inj g s1 s2 show ?thesis by blast
qed

text \<open>
  C7 as stated fails in its general clause: the keys \<open>"1"\<close> and \<open>"01"\<close> denote the same
  number, the stable sort keeps them in the order of the mapping, and the two orders of
  the mapping give different outputs.
\<close>

theorem equal_numbers_order_counterexample:
  "generate_interleaved_lines_for_all_prs (Some ''x'')
     [(''1'', \<lparr>pd_patch = Some ''@@ -0,0 +1 @@\<newline>+p'', pd_title = Some ''A'',
               pd_html_url = None, pd_local_pr_page_link = None\<rparr>),
      (''01'', \<lparr>pd_patch = Some ''@@ -0,0 +1 @@\<newline>+q'', pd_title = Some ''B'',
                pd_html_url = None, pd_local_pr_page_link = None\<rparr>)] =
   Inr [\<lparr>obj_text = ''p'', obj_type = ''added'',
         obj_pr_info = Some \<lparr>number = ''1'', title = ''A'', html_url = ''#'', local_pr_page_link = ''#''\<rparr>\<rparr>,
        \<lparr>obj_text = ''q'', obj_type = ''added'',
         obj_pr_info = Some \<lparr>number = ''01'', title = ''B'', html_url = ''#'', local_pr_page_link = ''#''\<rparr>\<rparr>,
        \<lparr>obj_text = ''x'', obj_type = ''base'', obj_pr_info = None\<rparr>]
   \<and> generate_interleaved_lines_for_all_prs (Some ''x'')
     [(''01'', \<lparr>pd_patch = Some ''@@ -0,0 +1 @@\<newline>+q'', pd_title = Some ''B'',
                pd_html_url = None, pd_local_pr_page_link = None\<rparr>),
      (''1'', \<lparr>pd_patch = Some ''@@ -0,0 +1 @@\<newline>+p'', pd_title = Some ''A'',
               pd_html_url = None, pd_local_pr_page_link = None\<rparr>)] =
   Inr [\<lparr>obj_text = ''q'', obj_type = ''added'',
         obj_pr_info = Some \<lparr>number = ''01'', title = ''B'', html_url = ''#'', local_pr_page_link = ''#''\<rparr>\<rparr>,
        \<lparr>obj_text = ''p'', obj_type = ''added'',
         obj_pr_info = Some \<lparr>number = ''1'', title = ''A'', html_url = ''#'', local_pr_page_link = ''#''\<rparr>\<rparr>,
        \<lparr>obj_text = ''x'', obj_type = ''base'', obj_pr_info = None\<rparr>]"
  by code_simp

subsection \<open>The header fields that are read\<close>

lemma same_old_start_cases:
  assumes "same_old_start (h1, b1) (h2, b2)"
  shows "b1 = b2 \<and>
         ((re_search_header h1 = None \<and> re_search_header h2 = None) \<or>
          (\<exists>m1 m2. re_search_header h1 = Some m1 \<and> re_search_header h2 = Some m2 \<and>
                    old_start m1 = old_start m2))"
  using assms
  by (cases "re_search_header h1"; cases "re_search_header h2")
     (auto simp: same_old_start_def old_start_of_header_def)

lemma apply_hunks_agree:
  "list_all2 same_old_start hs1 hs2 \<Longrightarrow>
   apply_hunks base_lines ann hs1 st = apply_hunks base_lines ann hs2 st"
proof (induction hs1 hs2 arbitrary: st rule: list_all2_induct)
  case Nil
  then show ?case by simp
next
  case (Cons x xs y ys)
  obtain h1 b1 where x: "x = (h1, b1)" by (cases x)
  obtain h2 b2 where y: "y = (h2, b2)" by (cases y)
  from same_old_start_cases[OF Cons.hyps(1)[unfolded x y]]
  show ?case
    by (auto simp: x y Cons.IH split: sum.splits)
qed

lemma merge_hunk_agree:
  "same_old_start hs1 hs2 \<Longrightarrow> merge_hunk details m hs1 = merge_hunk details m hs2"
  using same_old_start_cases[of "fst hs1" "snd hs1" "fst hs2" "snd hs2"]
  by (cases hs1; cases hs2) (auto simp: merge_hunk_def)

lemma merge_hunks_agree:
  "list_all2 same_old_start hs1 hs2 \<Longrightarrow>
   merge_hunks details m hs1 = merge_hunks details m hs2"
proof (induction hs1 hs2 arbitrary: m rule: list_all2_induct)
  case Nil
  then show ?case by simp
next
  case (Cons x xs y ys)
  show ?case
    by (cases "merge_hunk details m y") (simp_all add: merge_hunk_agree[OF Cons.hyps(1)] Cons.IH)
qed

lemma apply_patch_agree:
  assumes "patches_agree p1 p2"
  shows "apply_patch_to_content base_content_str (Some p1) ann =
         apply_patch_to_content base_content_str (Some p2) ann"
proof -
  let ?h1 = "hunk_sections_of (splitlines p1)" and ?h2 = "hunk_sections_of (splitlines p2)"
  from assms have la: "list_all2 same_old_start ?h1 ?h2" by (simp add: patches_agree_def)
  then have len: "?h1 = [] \<longleftrightarrow> ?h2 = []" by (auto dest: list_all2_lengthD)
  have pl: "patched_lines bl ann ?h1 = patched_lines bl ann ?h2" for bl
    by (simp add: patched_lines_def apply_hunks_agree[OF la])
  have empty: "apply_patch_to_content base_content_str (Some p) ann =
               Inr (html_escape (case base_content_str of None \<Rightarrow> [] | Some b \<Rightarrow> b))"
    if "hunk_sections_of (splitlines p) = []" for p
    using that
    by (auto simp: apply_patch_to_content_def Let_def html_escape_Nil split: option.splits)
  show ?thesis
  proof (cases "?h1 = []")
    case True
    then show ?thesis using len by (simp add: empty)
  next
    case False
    then have ne: "p1 \<noteq> []" "p2 \<noteq> []" "?h2 \<noteq> []"
      using len by (auto simp: splitlines_Nil hunk_sections_of_Nil)
    show ?thesis using False ne by (simp add: apply_patch_to_content_def Let_def pl)
  qed
qed

lemma merge_pr_agree:
  assumes "list_all2 entries_agree prs1 prs2"
  shows "merge_pr prs1 m k = merge_pr prs2 m k"
  using assms
proof (induction prs1 prs2 rule: list_all2_induct)
  case Nil
  then show ?case by (simp add: merge_pr_def)
next
  case (Cons x xs y ys)
  obtain k1 d1 where x: "x = (k1, d1)" by (cases x)
  obtain k2 d2 where y: "y = (k2, d2)" by (cases y)
  from Cons.hyps(1) have ea: "k1 = k2" "pd_title d1 = pd_title d2" "pd_html_url d1 = pd_html_url d2"
      "pd_local_pr_page_link d1 = pd_local_pr_page_link d2"
      "rel_option patches_agree (pd_patch d1) (pd_patch d2)"
    by (simp_all add: entries_agree_def x y)
  show ?case
  proof (cases "k = k1")
    case False
    then show ?thesis using Cons.IH ea(1) by (simp add: merge_pr_def x y)
  next
    case True
    have det: "make_pr_details kk d1 = make_pr_details kk d2" for kk
      using ea by (simp add: make_pr_details_def)
    show ?thesis
    proof (cases "pd_patch d1")
      case None
      then show ?thesis using ea(1,5) True by (simp add: merge_pr_def x y)
    next
      case (Some p1)
      then obtain p2 where p2: "pd_patch d2 = Some p2" "patches_agree p1 p2"
        using ea(5) by (cases "pd_patch d2") auto
      then have la: "list_all2 same_old_start (hunk_sections_of (splitlines p1))
                       (hunk_sections_of (splitlines p2))"
        by (simp add: patches_agree_def)
      have eq: "merge_hunks dd m (hunk_sections_of (splitlines p1)) =
                merge_hunks dd m (hunk_sections_of (splitlines p2))" for dd
        by (rule merge_hunks_agree[OF la])
      have e1: "p1 = [] \<Longrightarrow> hunk_sections_of (splitlines p2) = []"
        using la by (auto simp: splitlines_Nil hunk_sections_of_Nil)
      have e2: "p2 = [] \<Longrightarrow> hunk_sections_of (splitlines p1) = []"
        using la by (auto simp: splitlines_Nil hunk_sections_of_Nil)
      show ?thesis
        using True ea(1) Some p2(1) eq[of "make_pr_details k2 d2"] e1 e2
        by (auto simp: merge_pr_def x y det merge_hunk_sections_eq)
    qed
  qed
qed

lemma merge_prs_agree:
  assumes "list_all2 entries_agree prs1 prs2"
  shows "merge_prs prs1 m keys = merge_prs prs2 m keys"
proof (induction keys arbitrary: m)
  case Nil
  then show ?case by simp
next
  case (Cons k keys)
  show ?case
    by (cases "merge_pr prs2 m k") (simp_all add: merge_pr_agree[OF assms] Cons.IH)
qed

lemma generate_agree:
  assumes "list_all2 entries_agree prs1 prs2"
  shows "generate_interleaved_lines_for_all_prs base_content_str prs1 =
         generate_interleaved_lines_for_all_prs base_content_str prs2"
proof -
  have keys: "map fst prs1 = map fst prs2"
    using assms by (induction prs1 prs2 rule: list_all2_induct) (simp_all add: entries_agree_def)
  then have so: "sorted_pr_numbers prs1 = sorted_pr_numbers prs2"
    by (simp add: sorted_pr_numbers_def)
  have mp: "merge_prs prs1 = merge_prs prs2"
    by (intro ext) (rule merge_prs_agree[OF assms])
  show ?thesis
    unfolding generate_interleaved_lines_for_all_prs_def so mp by (rule refl)
qed

text \<open>
  C10: of a hunk header both functions use \<open>old_start\<close> only.  Two patches whose hunk
  sections have equal bodies and headers with equal \<open>old_start\<close>, whatever their other
  fields are, give the same reconstruction; two mappings that differ in this way only give
  the same merged output.
\<close>

theorem only_old_start_is_read:
  "(patches_agree p1 p2 \<longrightarrow>
      apply_patch_to_content base_content_str (Some p1) ann =
      apply_patch_to_content base_content_str (Some p2) ann)
   \<and> (list_all2 entries_agree prs1 prs2 \<longrightarrow>
      generate_interleaved_lines_for_all_prs base_content_str prs1 =
      generate_interleaved_lines_for_all_prs base_content_str prs2)"
  by (simp add: apply_patch_agree generate_agree)

theorem only_old_start_is_read_witness:
  "patches_agree ''@@ -2,1 +2,2 @@\<newline> b\<newline>+x'' ''@@ -2,7 +9 @@\<newline> b\<newline>+x''
   \<and> list_all2 entries_agree
        [(''1'', \<lparr>pd_patch = Some ''@@ -2,1 +2,2 @@\<newline> b\<newline>+x'', pd_title = None,
                  pd_html_url = None, pd_local_pr_page_link = None\<rparr>)]
        [(''1'', \<lparr>pd_patch = Some ''@@ -2,7 +9 @@\<newline> b\<newline>+x'', pd_title = None,
                  pd_html_url = None, pd_local_pr_page_link = None\<rparr>)]
   \<and> map_option (\<lambda>m. (old_start m, old_count m, new_start m, new_count m))
        (re_search_header ''@@ -2,1 +2,2 @@'') = Some (Inr 2, 1, 2, 2)
   \<and> map_option (\<lambda>m. (old_start m, old_count m, new_start m, new_count m))
        (re_search_header ''@@ -2,7 +9 @@'') = Some (Inr 2, 7, 9, 1)
   \<and> apply_patch_to_content (Some ''a\<newline>b\<newline>c'') (Some ''@@ -2,1 +2,2 @@\<newline> b\<newline>+x'') None =
       apply_patch_to_content (Some ''a\<newline>b\<newline>c'') (Some ''@@ -2,7 +9 @@\<newline> b\<newline>+x'') None
   \<and> generate_interleaved_lines_for_all_prs (Some ''a\<newline>b\<newline>c'')
        [(''1'', \<lparr>pd_patch = Some ''@@ -2,1 +2,2 @@\<newline> b\<newline>+x'', pd_title = None,
                  pd_html_url = None, pd_local_pr_page_link = None\<rparr>)] =
       generate_interleaved_lines_for_all_prs (Some ''a\<newline>b\<newline>c'')
        [(''1'', \<lparr>pd_patch = Some ''@@ -2,7 +9 @@\<newline> b\<newline>+x'', pd_title = None,
                  pd_html_url = None, pd_local_pr_page_link = None\<rparr>)]"
proof -
  let ?p1 = "''@@ -2,1 +2,2 @@\<newline> b\<newline>+x''" and ?p2 = "''@@ -2,7 +9 @@\<newline> b\<newline>+x''"
  have h1: "hunk_sections_of (splitlines ?p1) = [(''@@ -2,1 +2,2 @@'', ['' b'', ''+x''])]" by code_simp
  have h2: "hunk_sections_of (splitlines ?p2) = [(''@@ -2,7 +9 @@'', ['' b'', ''+x''])]" by code_simp
  have o1: "old_start_of_header ''@@ -2,1 +2,2 @@'' = Some (Inr 2)" by code_simp
  have o2: "old_start_of_header ''@@ -2,7 +9 @@'' = Some (Inr 2)" by code_simp
  have pa: "patches_agree ?p1 ?p2"
    by (simp add: patches_agree_def h1 h2 same_old_start_def o1 o2)
  have ea: "list_all2 entries_agree
        [(''1'', \<lparr>pd_patch = Some ?p1, pd_title = None, pd_html_url = None, pd_local_pr_page_link = None\<rparr>)]
        [(''1'', \<lparr>pd_patch = Some ?p2, pd_title = None, pd_html_url = None, pd_local_pr_page_link = None\<rparr>)]"
    using pa by (simp add: entries_agree_def)
  have f1: "map_option (\<lambda>m. (old_start m, old_count m, new_start m, new_count m))
        (re_search_header ''@@ -2,1 +2,2 @@'') = Some (Inr 2, 1, 2, 2)" by code_simp
  have f2: "map_option (\<lambda>m. (old_start m, old_count m, new_start m, new_count m))
        (re_search_header ''@@ -2,7 +9 @@'') = Some (Inr 2, 7, 9, 1)" by code_simp
  show ?thesis
    using only_old_start_is_read[of ?p1 ?p2 "Some ''a\<newline>b\<newline>c''" None
        "[(''1'', \<lparr>pd_patch = Some ?p1, pd_title = None, pd_html_url = None, pd_local_pr_page_link = None\<rparr>)]"
        "[(''1'', \<lparr>pd_patch = Some ?p2, pd_title = None, pd_html_url = None, pd_local_pr_page_link = None\<rparr>)]"]
      pa ea f1 f2
    by blast
qed

end
